theory Spec2Isabelle
  imports Main
begin

section \<open>Values, errors and the world outside the notebooks\<close>

text \<open>
  The two notebooks of \<^verbatim>\<open>docs/examples\<close> (the Nomic embedding example and the
  recursive retriever with document agents) are sequences of statements that act on the
  process environment, the local file system, the network and the library. The model is
  a state-and-exception monad over a record of that outside world. Every raise of the
  Python code is a value \<open>Inl e\<close>; a statement that raises ends the run, since no
  statement of the notebooks is inside a \<^verbatim>\<open>try\<close>.
\<close>

text \<open>A decoded JSON document. An object keeps its members in document order.\<close>

datatype json =
    JNull
  | JBool bool
  | JNum int
  | JStr string
  | JArr "json list"
  | JObj "(string \<times> json) list"

datatype error =
    KeyError string
  | TypeError
  | AttributeError
  | StopIteration
  | FileNotFoundError string
  | FileExistsError string
  | NotADirectoryError string
  | IsADirectoryError string
  | External string

text \<open>A file system entry: a directory, or a file with its text.\<close>

datatype node = Dir | File string

text \<open>A literal argument of a call, as written in a cell.\<close>

datatype lit = S string | I int | B bool

text \<open>
  What a run does to the outside, in the order it does it: a write to
  \<^verbatim>\<open>os.environ\<close>, an IPython shell escape (\<^verbatim>\<open>!mkdir -p\<close>, \<^verbatim>\<open>!wget -O\<close>,
  \<^verbatim>\<open>!pip install\<close>) with the exit status of the command, an HTTP GET, a directory
  creation, a file opened for writing, a call into the library (with its literal keyword
  arguments) and a line printed.
\<close>

datatype shell_cmd = MkdirP string | Wget string string | PipInstall string

datatype event =
    EnvSet string string
  | System shell_cmd nat
  | HttpGet string "(string \<times> lit) list"
  | Mkdir string
  | OpenW string
  | LibCall string "(string \<times> lit) list"
  | Print string

record world =
  environ :: "string \<rightharpoonup> string"
  files :: "string \<rightharpoonup> node"
  trace :: "event list"

type_synonym 'a prog = "world \<Rightarrow> (error + 'a) \<times> world"

definition result :: "'a \<Rightarrow> 'a prog" where
  "result x = (\<lambda>w. (Inr x, w))"

definition raise :: "error \<Rightarrow> 'a prog" where
  "raise e = (\<lambda>w. (Inl e, w))"

text \<open>One statement after another: the second runs only when the first did not raise.\<close>

definition seq :: "'a prog \<Rightarrow> ('a \<Rightarrow> 'b prog) \<Rightarrow> 'b prog" where
  "seq m f = (\<lambda>w. case m w of (Inl e, w') \<Rightarrow> (Inl e, w') | (Inr x, w') \<Rightarrow> f x w')"

definition of_result :: "error + 'a \<Rightarrow> 'a prog" where
  "of_result r = (\<lambda>w. (r, w))"

definition emit :: "event \<Rightarrow> world \<Rightarrow> world" where
  "emit e w = w\<lparr>trace := trace w @ [e]\<rparr>"

text \<open>
  A call that leaves the notebook: the event is recorded, and the answer is the one the
  outside gives in the world as it is at the call.
\<close>

definition call :: "event \<Rightarrow> (world \<Rightarrow> error + 'a) \<Rightarrow> 'a prog" where
  "call ev f = (\<lambda>w. (f w, emit ev w))"

text \<open>A \<^verbatim>\<open>for\<close> loop over a list, threading the variables \<open>s\<close> it assigns.\<close>

fun for_loop :: "('a \<Rightarrow> 's \<Rightarrow> 's prog) \<Rightarrow> 'a list \<Rightarrow> 's \<Rightarrow> 's prog" where
  "for_loop body [] s w = (Inr s, w)"
| "for_loop body (x # xs) s w =
     (case body x s w of
        (Inl e, w') \<Rightarrow> (Inl e, w')
      | (Inr s', w') \<Rightarrow> for_loop body xs s' w')"

subsection \<open>Python's subscripting and iteration on decoded JSON\<close>

text \<open>\<^verbatim>\<open>v[k]\<close> with a string key: only a dict can be subscripted by a string.\<close>

fun getitem :: "json \<Rightarrow> string \<Rightarrow> error + json" where
  "getitem (JObj kvs) k = (case map_of kvs k of None \<Rightarrow> Inl (KeyError k) | Some v \<Rightarrow> Inr v)"
| "getitem _ k = Inl TypeError"

text \<open>\<^verbatim>\<open>v.values()\<close>: only a dict has the method.\<close>

fun values_of :: "json \<Rightarrow> error + json list" where
  "values_of (JObj kvs) = Inr (map snd kvs)"
| "values_of _ = Inl AttributeError"

text \<open>\<^verbatim>\<open>next(iter(xs))\<close>.\<close>

fun next_iter :: "'a list \<Rightarrow> error + 'a" where
  "next_iter [] = Inl StopIteration"
| "next_iter (x # _) = Inr x"

subsection \<open>Paths and files\<close>

text \<open>
  Paths are kept as the text the program builds. \<open>path_div\<close> is pathlib's \<^verbatim>\<open>/\<close>: an
  absolute right operand replaces the left one. The directory of a path is the text
  before its last separator; a path without separator lies in the working directory,
  which always exists.
\<close>

definition path_div :: "string \<Rightarrow> string \<Rightarrow> string" where
  "path_div a b = (if b \<noteq> [] \<and> hd b = CHR ''/'' then b else a @ ''/'' @ b)"

definition dirname :: "string \<Rightarrow> string" where
  "dirname p = butlast (rev (dropWhile (\<lambda>c. c \<noteq> CHR ''/'') (rev p)))"

definition path_exists :: "string \<Rightarrow> world \<Rightarrow> bool" where
  "path_exists p w = (files w p \<noteq> None)"

text \<open>Why a new entry cannot be made at \<open>p\<close>: the directory it would lie in is missing or is a file.\<close>

definition parent_error :: "string \<Rightarrow> world \<Rightarrow> error option" where
  "parent_error p w =
     (if dirname p = [] then None
      else case files w (dirname p) of
             None \<Rightarrow> Some (FileNotFoundError p)
           | Some (File _) \<Rightarrow> Some (NotADirectoryError p)
           | Some Dir \<Rightarrow> None)"

text \<open>\<^verbatim>\<open>Path.mkdir(p)\<close>, without \<^verbatim>\<open>exist_ok\<close> and without \<^verbatim>\<open>parents\<close>.\<close>

definition path_mkdir :: "string \<Rightarrow> unit prog" where
  "path_mkdir p = (\<lambda>w.
     if files w p \<noteq> None then (Inl (FileExistsError p), w)
     else case parent_error p w of
            Some e \<Rightarrow> (Inl e, w)
          | None \<Rightarrow> (Inr (), emit (Mkdir p) (w\<lparr>files := (files w)(p \<mapsto> Dir)\<rparr>)))"

text \<open>
  \<^verbatim>\<open>open(p, "w")\<close>: the file is created or truncated at once. The value is the handle,
  here the path.
\<close>

definition open_w :: "string \<Rightarrow> string prog" where
  "open_w p = (\<lambda>w.
     if files w p = Some Dir then (Inl (IsADirectoryError p), w)
     else case parent_error p w of
            Some e \<Rightarrow> (Inl e, w)
          | None \<Rightarrow> (Inr p, emit (OpenW p) (w\<lparr>files := (files w)(p \<mapsto> File [])\<rparr>)))"

text \<open>
  \<^verbatim>\<open>fp.write(v)\<close> on a handle opened in text mode: only a \<^verbatim>\<open>str\<close> can be written,
  and it goes after what the handle has written so far.
\<close>

definition fp_write :: "string \<Rightarrow> json \<Rightarrow> unit prog" where
  "fp_write fp v = (\<lambda>w.
     case v of
       JStr s \<Rightarrow>
         (case files w fp of
            Some (File old) \<Rightarrow> (Inr (), w\<lparr>files := (files w)(fp \<mapsto> File (old @ s))\<rparr>)
          | _ \<Rightarrow> (Inr (), w\<lparr>files := (files w)(fp \<mapsto> File s)\<rparr>))
     | _ \<Rightarrow> (Inl TypeError, w))"

subsection \<open>The library and the services, as the notebooks call them\<close>

text \<open>
  The library, the HTTP client, the shell and the services behind them are not part of
  the notebooks: they are a parameter. Every answer may depend on the world at the time
  of the call (the environment, the files, and through the trace the calls made before),
  and every call may raise. Library objects are values of an arbitrary type \<open>'o\<close>.
  \<^verbatim>\<open>ToolMetadata\<close>, \<^verbatim>\<open>QueryEngineTool\<close> and \<^verbatim>\<open>IndexNode\<close> only hold
  the arguments they are given and are modelled as data.
\<close>

datatype tool_metadata = ToolMetadata (name: string) (description: string)

datatype 'o tool = QueryEngineTool (query_engine: 'o) (metadata: tool_metadata)

datatype 'o index_node = IndexNode (node_text: string) (index_id: string) (obj: 'o)

datatype reader_input = InputDir string | InputFiles "string list"

record 'o ext =
  requests_get :: "world \<Rightarrow> string \<Rightarrow> (string \<times> lit) list \<Rightarrow> error + json"
  system :: "world \<Rightarrow> shell_cmd \<Rightarrow> nat \<times> (string \<rightharpoonup> node)"
  load_data :: "world \<Rightarrow> reader_input \<Rightarrow> error + 'o"
  NomicEmbedding :: "world \<Rightarrow> string \<Rightarrow> string \<Rightarrow> string \<Rightarrow> string \<Rightarrow> error + 'o"
  ServiceContext_from_defaults :: "world \<Rightarrow> 'o option \<Rightarrow> 'o option \<Rightarrow> int option \<Rightarrow> error + 'o"
  VectorStoreIndex_from_documents :: "world \<Rightarrow> 'o \<Rightarrow> 'o \<Rightarrow> bool option \<Rightarrow> error + 'o"
  SummaryIndex_from_documents :: "world \<Rightarrow> 'o \<Rightarrow> 'o \<Rightarrow> error + 'o"
  VectorStoreIndex_objects :: "world \<Rightarrow> 'o index_node list \<Rightarrow> 'o \<Rightarrow> error + 'o"
  as_retriever :: "world \<Rightarrow> 'o \<Rightarrow> 'o \<Rightarrow> int \<Rightarrow> error + 'o"
  as_query_engine :: "world \<Rightarrow> 'o \<Rightarrow> int option \<Rightarrow> bool option \<Rightarrow> error + 'o"
  retrieve :: "world \<Rightarrow> 'o \<Rightarrow> string \<Rightarrow> error + 'o list"
  display_source_node :: "world \<Rightarrow> 'o \<Rightarrow> int \<Rightarrow> error + unit"
  OpenAI :: "world \<Rightarrow> int option \<Rightarrow> string \<Rightarrow> error + 'o"
  OpenAIAgent_from_tools :: "world \<Rightarrow> 'o tool list \<Rightarrow> 'o \<Rightarrow> bool \<Rightarrow> error + 'o"
  query :: "world \<Rightarrow> 'o \<Rightarrow> string \<Rightarrow> error + 'o"
  str_of :: "'o \<Rightarrow> string"

section \<open>The Wikipedia download loop\<close>

definition wiki_titles :: "string list" where
  "wiki_titles = [''Toronto'', ''Seattle'', ''Chicago'', ''Boston'', ''Houston'']"

definition wiki_url :: string where
  "wiki_url = ''https://en.wikipedia.org/w/api.php''"

definition wiki_params :: "string \<Rightarrow> (string \<times> lit) list" where
  "wiki_params title =
     [(''action'', S ''query''), (''format'', S ''json''), (''titles'', S title),
      (''prop'', S ''extracts''), (''explaintext'', B True)]"

definition data_path :: string where
  "data_path = ''data''"

text \<open>\<^verbatim>\<open>data_path / f"{title}.txt"\<close>\<close>

definition title_file :: "string \<Rightarrow> string" where
  "title_file title = path_div data_path (title @ ''.txt'')"

text \<open>\<^verbatim>\<open>next(iter(response["query"]["pages"].values()))\<close>\<close>

definition first_page :: "json \<Rightarrow> error + json" where
  "first_page response =
     (case getitem response ''query'' of
        Inl e \<Rightarrow> Inl e
      | Inr q \<Rightarrow>
          (case getitem q ''pages'' of
             Inl e \<Rightarrow> Inl e
           | Inr ps \<Rightarrow>
               (case values_of ps of
                  Inl e \<Rightarrow> Inl e
                | Inr vs \<Rightarrow> next_iter vs)))"

text \<open>The body of the loop, for one title.\<close>

definition download_step :: "'o ext \<Rightarrow> string \<Rightarrow> unit prog" where
  "download_step ext title =
     seq (call (HttpGet wiki_url (wiki_params title))
            (\<lambda>w. requests_get ext w wiki_url (wiki_params title))) (\<lambda>response.
     seq (of_result (first_page response)) (\<lambda>page.
     seq (of_result (getitem page ''extract'')) (\<lambda>wiki_text.
     seq (\<lambda>w. if \<not> path_exists data_path w then path_mkdir data_path w else result () w) (\<lambda>_.
     seq (open_w (title_file title)) (\<lambda>fp.
     fp_write fp wiki_text)))))"

definition download_loop :: "'o ext \<Rightarrow> string list \<Rightarrow> unit prog" where
  "download_loop ext titles = for_loop (\<lambda>title _. download_step ext title) titles ()"

text \<open>\<^verbatim>\<open>d[k]\<close> on a dict of the notebook's own.\<close>

definition dict_get :: "(string \<rightharpoonup> 'v) \<Rightarrow> string \<Rightarrow> error + 'v" where
  "dict_get d k = (case d k of None \<Rightarrow> Inl (KeyError k) | Some v \<Rightarrow> Inr v)"

text \<open>\<^verbatim>\<open>os.environ[k] = v\<close>\<close>

definition os_environ_set :: "string \<Rightarrow> string \<Rightarrow> unit prog" where
  "os_environ_set k v = (\<lambda>w. (Inr (), emit (EnvSet k v) (w\<lparr>environ := (environ w)(k \<mapsto> v)\<rparr>)))"

text \<open>
  An IPython shell escape \<^verbatim>\<open>!cmd\<close>: the command runs outside, its exit status is
  stored and not looked at, and nothing is raised.
\<close>

definition shell_escape :: "'o ext \<Rightarrow> shell_cmd \<Rightarrow> unit prog" where
  "shell_escape ext cmd = (\<lambda>w.
     case system ext w cmd of
       (status, fs) \<Rightarrow> (Inr (), emit (System cmd status) (w\<lparr>files := fs\<rparr>)))"

text \<open>\<^verbatim>\<open>print(v)\<close>\<close>

definition py_print :: "'o ext \<Rightarrow> 'o \<Rightarrow> unit prog" where
  "py_print ext v = (\<lambda>w. (Inr (), emit (Print (str_of ext v)) w))"

section \<open>The Nomic embedding notebook\<close>

text \<open>
  The cells in their order. Import statements and the logging configuration bind names
  and are left out.
\<close>

record 'o nomic_vars =
  documents :: 'o
  embed_model :: 'o
  service_context :: 'o
  index :: 'o
  retriever_nomic :: 'o
  retrieved_nodes_nomic :: "'o list"

definition nomic_api_key :: string where
  "nomic_api_key = ''<NOMIC_API_KEY>''"

definition essay_url :: string where
  "essay_url = ''https://raw.githubusercontent.com/run-llama/llama_index/main/docs/examples/data/paul_graham/paul_graham_essay.txt''"

text \<open>The cells up to the retriever: credentials, download, loading, model, index, retriever.\<close>

definition nomic_build :: "'o ext \<Rightarrow> ('o \<times> 'o \<times> 'o \<times> 'o \<times> 'o) prog" where
  "nomic_build ext =
     seq (os_environ_set ''OPENAI_API_KEY'' ''<OPENAI_API_KEY>'') (\<lambda>_.
     seq (shell_escape ext (MkdirP ''data/paul_graham/'')) (\<lambda>_.
     seq (shell_escape ext (Wget essay_url ''data/paul_graham/paul_graham_essay.txt'')) (\<lambda>_.
     seq (call (LibCall ''SimpleDirectoryReader.load_data'' [])
            (\<lambda>w. load_data ext w (InputDir ''./data/paul_graham/''))) (\<lambda>docs.
     seq (call (LibCall ''NomicEmbedding''
                  [(''api_key'', S nomic_api_key), (''model_name'', S ''nomic-embed-text-v1''),
                   (''query_task_type'', S ''search_query''),
                   (''document_task_type'', S ''search_document'')])
            (\<lambda>w. NomicEmbedding ext w nomic_api_key ''nomic-embed-text-v1''
                    ''search_query'' ''search_document'')) (\<lambda>em.
     seq (call (LibCall ''ServiceContext.from_defaults'' [(''chunk_size'', I 1024)])
            (\<lambda>w. ServiceContext_from_defaults ext w None (Some em) (Some 1024))) (\<lambda>sc.
     seq (call (LibCall ''VectorStoreIndex.from_documents'' [(''show_progress'', B True)])
            (\<lambda>w. VectorStoreIndex_from_documents ext w docs sc (Some True))) (\<lambda>ix.
     seq (call (LibCall ''as_retriever'' [(''similarity_top_k'', I 2)])
            (\<lambda>w. as_retriever ext w ix sc 2)) (\<lambda>search_query_retriever.
     result (docs, em, sc, ix, search_query_retriever)))))))))"

text \<open>The retrieval cell and the cell that displays the retrieved nodes.\<close>

definition nomic_query :: "'o ext \<Rightarrow> 'o \<Rightarrow> 'o list prog" where
  "nomic_query ext retriever =
     seq (call (LibCall ''retrieve'' [])
            (\<lambda>w. retrieve ext w retriever ''What software did Paul write?'')) (\<lambda>nodes.
     seq (for_loop (\<lambda>n _. call (LibCall ''display_source_node'' [(''source_length'', I 2000)])
                             (\<lambda>w. display_source_node ext w n 2000)) nodes ()) (\<lambda>_.
     result nodes))"

definition nomic_notebook :: "'o ext \<Rightarrow> 'o nomic_vars prog" where
  "nomic_notebook ext =
     seq (nomic_build ext) (\<lambda>(docs, em, sc, ix, search_query_retriever).
     seq (nomic_query ext search_query_retriever) (\<lambda>nodes.
     result \<lparr>documents = docs, embed_model = em, service_context = sc, index = ix,
             retriever_nomic = search_query_retriever,
             retrieved_nodes_nomic = nodes\<rparr>))"

section \<open>The recursive retriever notebook\<close>

text \<open>Load all wiki documents: the body of the loop, and the loop.\<close>

definition load_step :: "'o ext \<Rightarrow> string \<Rightarrow> (string \<rightharpoonup> 'o) \<Rightarrow> (string \<rightharpoonup> 'o) prog" where
  "load_step ext wiki_title city_docs =
     seq (call (LibCall ''SimpleDirectoryReader.load_data'' [])
            (\<lambda>w. load_data ext w (InputFiles [''data/'' @ wiki_title @ ''.txt'']))) (\<lambda>docs.
     result (city_docs(wiki_title \<mapsto> docs)))"

definition load_loop :: "'o ext \<Rightarrow> string list \<Rightarrow> (string \<rightharpoonup> 'o) prog" where
  "load_loop ext titles = for_loop (load_step ext) titles Map.empty"

text \<open>Build agents dictionary: the body of the loop, and the loop.\<close>

definition vector_tool_description :: "string \<Rightarrow> string" where
  "vector_tool_description wiki_title =
     ''Useful for retrieving specific context from '' @ wiki_title"

definition summary_tool_description :: "string \<Rightarrow> string" where
  "summary_tool_description wiki_title =
     ''Useful for summarization questions related to'' @ '' '' @ wiki_title"

definition agent_step ::
  "'o ext \<Rightarrow> 'o \<Rightarrow> (string \<rightharpoonup> 'o) \<Rightarrow> string \<Rightarrow> (string \<rightharpoonup> 'o) \<Rightarrow> (string \<rightharpoonup> 'o) prog" where
  "agent_step ext sc city_docs wiki_title agents =
     seq (of_result (dict_get city_docs wiki_title)) (\<lambda>docs.
     seq (call (LibCall ''VectorStoreIndex.from_documents'' [])
            (\<lambda>w. VectorStoreIndex_from_documents ext w docs sc None)) (\<lambda>vector_index.
     seq (of_result (dict_get city_docs wiki_title)) (\<lambda>docs'.
     seq (call (LibCall ''SummaryIndex.from_documents'' [])
            (\<lambda>w. SummaryIndex_from_documents ext w docs' sc)) (\<lambda>summary_index.
     seq (call (LibCall ''as_query_engine'' [])
            (\<lambda>w. as_query_engine ext w vector_index None None)) (\<lambda>vector_query_engine.
     seq (call (LibCall ''as_query_engine'' [])
            (\<lambda>w. as_query_engine ext w summary_index None None)) (\<lambda>list_query_engine.
     seq (call (LibCall ''OpenAI'' [(''model'', S ''gpt-3.5-turbo-0613'')])
            (\<lambda>w. OpenAI ext w None ''gpt-3.5-turbo-0613'')) (\<lambda>function_llm.
     seq (call (LibCall ''OpenAIAgent.from_tools'' [(''verbose'', B True)])
            (\<lambda>w. OpenAIAgent_from_tools ext w
                    [QueryEngineTool vector_query_engine
                       (ToolMetadata ''vector_tool'' (vector_tool_description wiki_title)),
                     QueryEngineTool list_query_engine
                       (ToolMetadata ''summary_tool'' (summary_tool_description wiki_title))]
                    function_llm True)) (\<lambda>agent.
     result (agents(wiki_title \<mapsto> agent))))))))))"

definition agents_loop ::
  "'o ext \<Rightarrow> 'o \<Rightarrow> (string \<rightharpoonup> 'o) \<Rightarrow> string list \<Rightarrow> (string \<rightharpoonup> 'o) prog" where
  "agents_loop ext sc city_docs titles = for_loop (agent_step ext sc city_docs) titles Map.empty"

text \<open>Define top-level nodes: the body of the loop, and the loop.\<close>

definition wiki_summary :: "string \<Rightarrow> string" where
  "wiki_summary wiki_title =
     ''This content contains Wikipedia articles about '' @ wiki_title @ ''. Use''
     @ '' this index if you need to lookup specific facts about''
     @ '' '' @ wiki_title @ ''.'' @ [CHR 0x0A] @ ''Do not use this index if you want to analyze''
     @ '' multiple cities.''"

definition object_step ::
  "(string \<rightharpoonup> 'o) \<Rightarrow> string \<Rightarrow> 'o index_node list \<Rightarrow> 'o index_node list prog" where
  "object_step agents wiki_title objects =
     seq (of_result (dict_get agents wiki_title)) (\<lambda>agent.
     result (objects @ [IndexNode (wiki_summary wiki_title) wiki_title agent]))"

definition objects_loop :: "(string \<rightharpoonup> 'o) \<Rightarrow> string list \<Rightarrow> 'o index_node list prog" where
  "objects_loop agents titles = for_loop (object_step agents) titles []"

text \<open>A query cell and the cell that prints its response.\<close>

definition query_and_print :: "'o ext \<Rightarrow> 'o \<Rightarrow> string \<Rightarrow> 'o prog" where
  "query_and_print ext qe q =
     seq (call (LibCall ''query'' []) (\<lambda>w. query ext w qe q)) (\<lambda>response.
     seq (py_print ext response) (\<lambda>_.
     result response))"

record 'o agents_vars =
  city_docs :: "string \<rightharpoonup> 'o"
  llm :: 'o
  agents :: "string \<rightharpoonup> 'o"
  objects :: "'o index_node list"
  vector_index :: 'o
  query_engine :: 'o
  responses :: "'o list"

text \<open>The cells that install the package, download the articles and load them.\<close>

definition wiki_documents :: "'o ext \<Rightarrow> (string \<rightharpoonup> 'o) prog" where
  "wiki_documents ext =
     seq (shell_escape ext (PipInstall ''llama-index'')) (\<lambda>_.
     seq (download_loop ext wiki_titles) (\<lambda>_.
     load_loop ext wiki_titles))"

text \<open>
  The cells after the documents are loaded: the credential, the language model and the
  service context, the agents, the top-level nodes, the top-level index and query
  engine, and the three queries with their prints.
\<close>

definition document_agents :: "'o ext \<Rightarrow> (string \<rightharpoonup> 'o) \<Rightarrow> 'o agents_vars prog" where
  "document_agents ext cd =
     seq (os_environ_set ''OPENAI_API_KEY'' ''sk-...'') (\<lambda>_.
     seq (call (LibCall ''OpenAI'' [(''temperature'', I 0), (''model'', S ''gpt-3.5-turbo'')])
            (\<lambda>w. OpenAI ext w (Some 0) ''gpt-3.5-turbo'')) (\<lambda>l.
     seq (call (LibCall ''ServiceContext.from_defaults'' [])
            (\<lambda>w. ServiceContext_from_defaults ext w (Some l) None None)) (\<lambda>sc.
     seq (agents_loop ext sc cd wiki_titles) (\<lambda>ag.
     seq (objects_loop ag wiki_titles) (\<lambda>obs.
     seq (call (LibCall ''VectorStoreIndex'' [])
            (\<lambda>w. VectorStoreIndex_objects ext w obs sc)) (\<lambda>vi.
     seq (call (LibCall ''as_query_engine'' [(''similarity_top_k'', I 1), (''verbose'', B True)])
            (\<lambda>w. as_query_engine ext w vi (Some 1) (Some True))) (\<lambda>qe.
     seq (query_and_print ext qe ''Tell me about the sports teams in Boston'') (\<lambda>r1.
     seq (query_and_print ext qe ''Tell me about the sports teams in Houston'') (\<lambda>r2.
     seq (query_and_print ext qe ''Give me a summary on all the positive aspects of Chicago'')
       (\<lambda>r3.
     result \<lparr>city_docs = cd, llm = l, agents = ag, objects = obs, vector_index = vi,
             query_engine = qe, responses = [r1, r2, r3]\<rparr>))))))))))"

definition agents_notebook :: "'o ext \<Rightarrow> 'o agents_vars prog" where
  "agents_notebook ext = seq (wiki_documents ext) (document_agents ext)"


section \<open>The library's top-level retriever\<close>




section \<open>Reading a run\<close>

text \<open>The events a program adds to the trace when it is run in \<open>w\<close>.\<close>

definition new_events :: "'a prog \<Rightarrow> world \<Rightarrow> event list" where
  "new_events m w = drop (length (trace w)) (trace (snd (m w)))"

text \<open>
  The five steps the notebooks go through, and the set-up before them. Every event
  belongs to one: writing the environment sets credentials; shell commands (other than
  the package installation), HTTP requests, file operations and the directory reader
  fetch, store and load documents; the constructors of models, service contexts and
  indices build the index; \<^verbatim>\<open>as_retriever\<close>, \<^verbatim>\<open>as_query_engine\<close> and the agent
  constructor build what answers queries; retrieval, queries, display and printing come
  last.
\<close>

datatype step = Setup | Credentials | Documents | Models | Engines | Queries

fun step_of :: "event \<Rightarrow> step" where
  "step_of (EnvSet _ _) = Credentials"
| "step_of (System (PipInstall _) _) = Setup"
| "step_of (System _ _) = Documents"
| "step_of (HttpGet _ _) = Documents"
| "step_of (Mkdir _) = Documents"
| "step_of (OpenW _) = Documents"
| "step_of (LibCall f _) =
     (if f = ''SimpleDirectoryReader.load_data'' then Documents
      else if f \<in> {''NomicEmbedding'', ''OpenAI'', ''ServiceContext.from_defaults'',
                    ''VectorStoreIndex.from_documents'', ''SummaryIndex.from_documents'',
                    ''VectorStoreIndex''} then Models
      else if f \<in> {''as_retriever'', ''as_query_engine'', ''OpenAIAgent.from_tools''} then Engines
      else Queries)"
| "step_of (Print _) = Queries"

text \<open>The order of the steps as the specification gives it.\<close>

fun spec_order :: "step \<Rightarrow> nat" where
  "spec_order Setup = 0"
| "spec_order Credentials = 1"
| "spec_order Documents = 2"
| "spec_order Models = 3"
| "spec_order Engines = 4"
| "spec_order Queries = 5"

text \<open>
  The order the recursive retriever notebook follows: documents before credentials, and
  models, indices, engines and agents built in one stretch.
\<close>

fun agents_order :: "step \<Rightarrow> nat" where
  "agents_order Setup = 0"
| "agents_order Documents = 1"
| "agents_order Credentials = 2"
| "agents_order Models = 3"
| "agents_order Engines = 3"
| "agents_order Queries = 4"


text \<open>The call that constructs the embedding model, as the Nomic notebook makes it.\<close>

definition nomic_embedding_call :: event where
  "nomic_embedding_call =
     LibCall ''NomicEmbedding''
       [(''api_key'', S nomic_api_key), (''model_name'', S ''nomic-embed-text-v1''),
        (''query_task_type'', S ''search_query''),
        (''document_task_type'', S ''search_document'')]"



text \<open>
  A program is staged between \<open>lo\<close> and \<open>hi\<close> under a ranking of events when every
  run of it only appends events, in non-decreasing rank, with ranks from \<open>lo\<close> to \<open>hi\<close>.
\<close>

definition staged :: "(event \<Rightarrow> nat) \<Rightarrow> nat \<Rightarrow> nat \<Rightarrow> 'a prog \<Rightarrow> bool" where
  "staged r lo hi m \<longleftrightarrow>
     lo \<le> hi \<and>
     (\<forall>w. \<exists>es. trace (snd (m w)) = trace w @ es \<and> sorted (map r es) \<and>
             (\<forall>e \<in> set es. lo \<le> r e \<and> r e \<le> hi))"

definition emits :: "event list \<Rightarrow> world \<Rightarrow> world" where
  "emits es w = w\<lparr>trace := trace w @ es\<rparr>"

text \<open>The library calls of one turn of the agent-building loop, in their order.\<close>

definition agent_events :: "event list" where
  "agent_events =
     [LibCall ''VectorStoreIndex.from_documents'' [],
      LibCall ''SummaryIndex.from_documents'' [],
      LibCall ''as_query_engine'' [],
      LibCall ''as_query_engine'' [],
      LibCall ''OpenAI'' [(''model'', S ''gpt-3.5-turbo-0613'')],
      LibCall ''OpenAIAgent.from_tools'' [(''verbose'', B True)]]"

section \<open>A run for illustration\<close>

text \<open>
  An outside in which every call succeeds: the wiki API answers with one page whose
  extract names the requested title, shell commands succeed and change no file, and the
  library returns objects that say what they are.
\<close>

definition wiki_reply :: "string \<Rightarrow> json" where
  "wiki_reply content =
     JObj [(''batchcomplete'', JStr []),
           (''query'', JObj [(''pages'', JObj [(''64646'',
              JObj [(''pageid'', JNum 64646), (''ns'', JNum 0), (''extract'', JStr content)])])])]"

definition requested_title :: "(string \<times> lit) list \<Rightarrow> string" where
  "requested_title params = (case map_of params ''titles'' of Some (S t) \<Rightarrow> t | _ \<Rightarrow> [])"

definition demo_ext :: "string ext" where
  "demo_ext =
     \<lparr>requests_get = (\<lambda>w url params. Inr (wiki_reply (''About '' @ requested_title params))),
      system = (\<lambda>w cmd. (0, files w)),
      load_data = (\<lambda>w src. Inr ''documents''),
      NomicEmbedding = (\<lambda>w key model qt dt. Inr ''embed_model''),
      ServiceContext_from_defaults = (\<lambda>w l em cs. Inr ''service_context''),
      VectorStoreIndex_from_documents = (\<lambda>w docs sc sp. Inr ''vector_index''),
      SummaryIndex_from_documents = (\<lambda>w docs sc. Inr ''summary_index''),
      VectorStoreIndex_objects = (\<lambda>w obs sc. Inr ''top_index''),
      as_retriever = (\<lambda>w ix sc k. Inr ''retriever''),
      as_query_engine = (\<lambda>w ix k v. Inr ''query_engine''),
      retrieve = (\<lambda>w r q. Inr [''node 1'', ''node 2'']),
      display_source_node = (\<lambda>w n len. Inr ()),
      OpenAI = (\<lambda>w temp model. Inr ''llm''),
      OpenAIAgent_from_tools = (\<lambda>w tools l v. Inr ''agent''),
      query = (\<lambda>w qe q. Inr ''response''),
      str_of = (\<lambda>v. v)\<rparr>"

text \<open>The same outside, with other answers from the embedding and language model services.\<close>

definition other_ext :: "string ext" where
  "other_ext =
     demo_ext\<lparr>retrieve := (\<lambda>w r q. Inr [''node 3'']),
              query := (\<lambda>w qe q. Inr ''another response'')\<rparr>"

text \<open>The same outside, with a shell in which every command fails and changes nothing.\<close>

definition failing_shell_ext :: "string ext" where
  "failing_shell_ext = demo_ext\<lparr>system := (\<lambda>w cmd. (1, files w))\<rparr>"

text \<open>The same outside, without a network: every request to the wiki API fails.\<close>

definition offline_ext :: "string ext" where
  "offline_ext = demo_ext\<lparr>requests_get := (\<lambda>w url params. Inl (External ''ConnectionError''))\<rparr>"

text \<open>The same outside, with an embedding service that refuses the retrieval.\<close>

definition refusing_ext :: "string ext" where
  "refusing_ext = demo_ext\<lparr>retrieve := (\<lambda>w r q. Inl (External ''PermissionDenied''))\<rparr>"

text \<open>A world left by earlier work: the directory exists and one file holds an older text.\<close>

definition stale_world :: world where
  "stale_world =
     \<lparr>environ = Map.empty,
      files = [''data'' \<mapsto> Dir, ''data/Boston.txt'' \<mapsto> File ''An older text about Boston''],
      trace = []\<rparr>"



definition empty_world :: world where
  "empty_world = \<lparr>environ = Map.empty, files = Map.empty, trace = []\<rparr>"

section \<open>Sequencing and loops\<close>


lemma seq_Inr_iff:
  "seq m f w = (Inr y, w'') \<longleftrightarrow> (\<exists>x w'. m w = (Inr x, w') \<and> f x w' = (Inr y, w''))"
  by (auto simp: seq_def split: prod.splits sum.splits)

lemma seq_Inl_iff:
  "seq m f w = (Inl e, w'') \<longleftrightarrow>
     (m w = (Inl e, w'') \<or> (\<exists>x w'. m w = (Inr x, w') \<and> f x w' = (Inl e, w'')))"
  by (auto simp: seq_def split: prod.splits sum.splits)

lemma seq_ok: "m w = (Inr x, w') \<Longrightarrow> seq m f w = f x w'"
  by (simp add: seq_def)

lemma seq_err: "m w = (Inl e, w') \<Longrightarrow> seq m f w = (Inl e, w')"
  by (simp add: seq_def)

lemma for_loop_append:
  "for_loop body (xs @ ys) s w =
     (case for_loop body xs s w of
        (Inl e, w') \<Rightarrow> (Inl e, w')
      | (Inr s', w') \<Rightarrow> for_loop body ys s' w')"
  by (induction xs arbitrary: s w) (auto split: prod.splits sum.splits)

lemma title_file_eq: "CHR ''/'' \<notin> set t \<Longrightarrow> title_file t = ''data/'' @ t @ ''.txt''"
  by (cases t) (auto simp: title_file_def path_div_def data_path_def)

lemma dirname_plain:
  assumes "CHR ''/'' \<notin> set b"
  shows "dirname (a @ ''/'' @ b) = a"
proof -
  have "dropWhile (\<lambda>c. c \<noteq> CHR ''/'') (rev b @ (CHR ''/'' # rev a)) = CHR ''/'' # rev a"
    using assms by (subst dropWhile_append2) auto
  then show ?thesis by (simp add: dirname_def)
qed

lemma dirname_title_file: "CHR ''/'' \<notin> set t \<Longrightarrow> dirname (title_file t) = data_path"
  using dirname_plain [of "t @ ''.txt''" "''data''"]
  by (simp add: title_file_eq data_path_def)

lemma dirname_data_path: "dirname data_path = []"
  by (simp add: dirname_def data_path_def)

lemma title_file_neq_data: "CHR ''/'' \<notin> set t \<Longrightarrow> title_file t \<noteq> data_path"
  by (simp add: title_file_eq data_path_def)

lemma title_file_inj: "CHR ''/'' \<notin> set t \<Longrightarrow> CHR ''/'' \<notin> set t' \<Longrightarrow> title_file t = title_file t' \<longleftrightarrow> t = t'"
  by (simp add: title_file_eq)

lemma call_eq: "call ev f w = (r, w') \<longleftrightarrow> f w = r \<and> w' = emit ev w"
  by (auto simp: call_def)

lemma of_result_eq: "of_result r w = (r', w') \<longleftrightarrow> r = r' \<and> w' = w"
  by (auto simp: of_result_def)

lemma result_eq: "result x w = (r, w') \<longleftrightarrow> r = Inr x \<and> w' = w"
  by (auto simp: result_def)

lemma path_mkdir_ok:
  "path_mkdir p w = (Inr u, w') \<longleftrightarrow>
     files w p = None \<and> parent_error p w = None \<and>
     w' = emit (Mkdir p) (w\<lparr>files := (files w)(p \<mapsto> Dir)\<rparr>)"
  by (auto simp: path_mkdir_def split: option.splits)

lemma open_w_ok:
  "open_w p w = (Inr fp, w') \<longleftrightarrow>
     fp = p \<and> files w p \<noteq> Some Dir \<and> parent_error p w = None \<and>
     w' = emit (OpenW p) (w\<lparr>files := (files w)(p \<mapsto> File [])\<rparr>)"
  by (auto simp: open_w_def split: option.splits)

lemma fp_write_ok:
  "fp_write fp v w = (Inr u, w') \<Longrightarrow> files w fp = Some (File []) \<Longrightarrow>
     \<exists>s. v = JStr s \<and> w' = w\<lparr>files := (files w)(fp \<mapsto> File s)\<rparr>"
  by (auto simp: fp_write_def split: json.splits)

lemma parent_error_data_path [simp]: "parent_error data_path w = None"
  by (simp add: parent_error_def dirname_data_path)

lemma parent_error_title_file:
  "CHR ''/'' \<notin> set t \<Longrightarrow>
     parent_error (title_file t) w = None \<longleftrightarrow> files w data_path = Some Dir"
  by (auto simp: parent_error_def dirname_title_file data_path_def split: option.splits node.splits)

lemma download_step_ok:
  assumes run: "download_step ext t w = (Inr u, w')" and plain: "CHR ''/'' \<notin> set t"
  shows "\<exists>resp page content.
           requests_get ext w wiki_url (wiki_params t) = Inr resp \<and>
           first_page resp = Inr page \<and>
           getitem page ''extract'' = Inr (JStr content) \<and>
           files w' = (if path_exists data_path w then files w else (files w)(data_path \<mapsto> Dir))
                        (title_file t \<mapsto> File content) \<and>
           files w' data_path = Some Dir \<and>
           environ w' = environ w \<and>
           trace w' = trace w @ [HttpGet wiki_url (wiki_params t)]
                        @ (if path_exists data_path w then [] else [Mkdir data_path])
                        @ [OpenW (title_file t)]"
proof -
  let ?w1 = "emit (HttpGet wiki_url (wiki_params t)) w"
  from run obtain resp page v w2 fp w3 where
    resp: "requests_get ext w wiki_url (wiki_params t) = Inr resp" and
    page: "first_page resp = Inr page" and
    v: "getitem page ''extract'' = Inr v" and
    dir: "(if \<not> path_exists data_path ?w1 then path_mkdir data_path ?w1 else result () ?w1)
            = (Inr (), w2)" and
    opn: "open_w (title_file t) w2 = (Inr fp, w3)" and
    wr: "fp_write fp v w3 = (Inr u, w')"
    unfolding download_step_def
    by (auto simp: seq_Inr_iff call_eq of_result_eq)
  have w2: "w2 = (if path_exists data_path w
                  then ?w1 else emit (Mkdir data_path) (?w1\<lparr>files := (files w)(data_path \<mapsto> Dir)\<rparr>))"
    using dir by (auto simp: path_mkdir_ok result_eq path_exists_def emit_def split: if_splits)
  from opn have fp: "fp = title_file t" and isdir: "files w2 data_path = Some Dir" and
    w3: "w3 = emit (OpenW (title_file t)) (w2\<lparr>files := (files w2)(title_file t \<mapsto> File [])\<rparr>)"
    by (auto simp: open_w_ok parent_error_title_file plain)
  have "files w3 fp = Some (File [])"
    by (simp add: w3 fp emit_def)
  with wr obtain content where is_str: "v = JStr content" and wfin: "w' = w3\<lparr>files := (files w3)(fp \<mapsto> File content)\<rparr>"
    using fp_write_ok by blast
  have neq: "title_file t \<noteq> data_path"
    by (rule title_file_neq_data [OF plain])
  have "files w' = (if path_exists data_path w then files w else (files w)(data_path \<mapsto> Dir))
                        (title_file t \<mapsto> File content)"
    by (simp add: wfin w3 w2 fp emit_def)
  moreover have "files w' data_path = Some Dir"
    using isdir neq by (simp add: wfin w3 fp emit_def)
  moreover have "environ w' = environ w"
    by (simp add: wfin w3 w2 emit_def)
  moreover have "trace w' = trace w @ [HttpGet wiki_url (wiki_params t)]
                        @ (if path_exists data_path w then [] else [Mkdir data_path])
                        @ [OpenW (title_file t)]"
    by (simp add: wfin w3 w2 emit_def)
  ultimately show ?thesis
    using resp page v is_str by blast
qed


lemma download_loop_Nil: "download_loop ext [] w = (Inr (), w)"
  by (simp add: download_loop_def)

lemma download_loop_Cons:
  "download_loop ext (t # ts) w =
     (case download_step ext t w of
        (Inl e, w') \<Rightarrow> (Inl e, w')
      | (Inr _, w') \<Rightarrow> download_loop ext ts w')"
  by (simp add: download_loop_def split: prod.splits sum.splits)

lemma download_loop_append:
  "download_loop ext (ts @ us) w =
     (case download_loop ext ts w of
        (Inl e, w') \<Rightarrow> (Inl e, w')
      | (Inr _, w') \<Rightarrow> download_loop ext us w')"
  by (simp add: download_loop_def for_loop_append split: prod.splits sum.splits)

lemma download_loop_ok_Cons:
  "download_loop ext (t # ts) w = (Inr u, w') \<longleftrightarrow>
     (\<exists>w1. download_step ext t w = (Inr (), w1) \<and> download_loop ext ts w1 = (Inr u, w'))"
  by (auto simp: download_loop_Cons split: prod.splits sum.splits)

lemma download_loop_ok_append:
  "download_loop ext (ts @ us) w = (Inr u, w') \<longleftrightarrow>
     (\<exists>w1. download_loop ext ts w = (Inr (), w1) \<and> download_loop ext us w1 = (Inr u, w'))"
  by (auto simp: download_loop_append split: prod.splits sum.splits)

lemma download_loop_in_dir:
  assumes "download_loop ext ts w = (Inr u, w')" and "\<forall>t \<in> set ts. CHR ''/'' \<notin> set t"
    and "files w data_path = Some Dir"
  shows "files w' data_path = Some Dir \<and> environ w' = environ w \<and>
         trace w' = trace w @ concat (map (\<lambda>t. [HttpGet wiki_url (wiki_params t), OpenW (title_file t)]) ts)"
  using assms
proof (induction ts arbitrary: w)
  case Nil
  then show ?case by (simp add: download_loop_Nil)
next
  case (Cons t ts)
  from Cons.prems(1) obtain w1 where
    step: "download_step ext t w = (Inr (), w1)" and rest: "download_loop ext ts w1 = (Inr u, w')"
    by (auto simp: download_loop_ok_Cons)
  from Cons.prems(2) have pt: "CHR ''/'' \<notin> set t" and pts: "\<forall>t \<in> set ts. CHR ''/'' \<notin> set t"
    by simp_all
  have ex: "path_exists data_path w"
    using Cons.prems(3) by (simp add: path_exists_def)
  from download_step_ok [OF step pt] ex
  have w1: "files w1 data_path = Some Dir" "environ w1 = environ w"
    "trace w1 = trace w @ [HttpGet wiki_url (wiki_params t), OpenW (title_file t)]"
    by auto
  from Cons.IH [OF rest pts w1(1)] w1 show ?case by simp
qed

lemma download_loop_frame:
  assumes "download_loop ext ts w = (Inr u, w')" and "\<forall>t \<in> set ts. CHR ''/'' \<notin> set t"
    and "p \<noteq> data_path" and "p \<notin> title_file ` set ts"
  shows "files w' p = files w p"
  using assms
proof (induction ts arbitrary: w)
  case Nil
  then show ?case by (simp add: download_loop_Nil)
next
  case (Cons t ts)
  from Cons.prems(1) obtain w1 where
    step: "download_step ext t w = (Inr (), w1)" and rest: "download_loop ext ts w1 = (Inr u, w')"
    by (auto simp: download_loop_ok_Cons)
  from Cons.prems(2) have pt: "CHR ''/'' \<notin> set t" and pts: "\<forall>t \<in> set ts. CHR ''/'' \<notin> set t"
    by simp_all
  from download_step_ok [OF step pt] Cons.prems(3,4)
  have "files w1 p = files w p"
    by auto
  moreover have "files w' p = files w1 p"
    using Cons.IH [OF rest pts Cons.prems(3)] Cons.prems(4) by simp
  ultimately show ?case by simp
qed

lemma download_loop_trace:
  assumes "download_loop ext (t # ts) w = (Inr u, w')" and "\<forall>t \<in> set (t # ts). CHR ''/'' \<notin> set t"
  shows "files w' data_path = Some Dir \<and> environ w' = environ w \<and>
         trace w' = trace w @ [HttpGet wiki_url (wiki_params t)]
            @ (if path_exists data_path w then [] else [Mkdir data_path])
            @ [OpenW (title_file t)]
            @ concat (map (\<lambda>t. [HttpGet wiki_url (wiki_params t), OpenW (title_file t)]) ts)"
proof -
  from assms(1) obtain w1 where
    step: "download_step ext t w = (Inr (), w1)" and rest: "download_loop ext ts w1 = (Inr u, w')"
    by (auto simp: download_loop_ok_Cons)
  from assms(2) have pt: "CHR ''/'' \<notin> set t" and pts: "\<forall>t \<in> set ts. CHR ''/'' \<notin> set t"
    by simp_all
  from download_step_ok [OF step pt]
  have w1: "files w1 data_path = Some Dir" "environ w1 = environ w"
    "trace w1 = trace w @ [HttpGet wiki_url (wiki_params t)]
            @ (if path_exists data_path w then [] else [Mkdir data_path])
            @ [OpenW (title_file t)]"
    by auto
  from download_loop_in_dir [OF rest pts w1(1)] w1 show ?thesis by simp
qed

lemma download_loop_content:
  assumes run: "download_loop ext ts w = (Inr u, w')" and pl: "\<forall>t \<in> set ts. CHR ''/'' \<notin> set t"
    and t: "t \<in> set ts"
  shows "\<exists>ts1 ts2 wt resp page content.
           ts = ts1 @ t # ts2 \<and> t \<notin> set ts2 \<and>
           download_loop ext ts1 w = (Inr (), wt) \<and>
           requests_get ext wt wiki_url (wiki_params t) = Inr resp \<and>
           first_page resp = Inr page \<and>
           getitem page ''extract'' = Inr (JStr content) \<and>
           files w' (title_file t) = Some (File content)"
proof -
  from t obtain ts1 ts2 where split: "ts = ts1 @ t # ts2" and last: "t \<notin> set ts2"
    by (meson split_list_last)
  from run obtain wt w1 where
    before: "download_loop ext ts1 w = (Inr (), wt)" and
    step: "download_step ext t wt = (Inr (), w1)" and
    rest: "download_loop ext ts2 w1 = (Inr u, w')"
    unfolding split by (auto simp: download_loop_ok_append download_loop_ok_Cons)
  from pl have pt: "CHR ''/'' \<notin> set t" and pts: "\<forall>t \<in> set ts2. CHR ''/'' \<notin> set t"
    by (simp_all add: split)
  from download_step_ok [OF step pt] obtain resp page content where
    r: "requests_get ext wt wiki_url (wiki_params t) = Inr resp"
       "first_page resp = Inr page" "getitem page ''extract'' = Inr (JStr content)" and
    f: "files w1 (title_file t) = Some (File content)"
    by auto
  have "title_file t \<notin> title_file ` set ts2"
    using last pt pts by (auto simp: title_file_inj)
  then have "files w' (title_file t) = files w1 (title_file t)"
    using download_loop_frame [OF rest pts title_file_neq_data [OF pt]] by simp
  with f have "files w' (title_file t) = Some (File content)" by simp
  with r split last before show ?thesis
    by (intro exI [of _ ts1] exI [of _ ts2] exI [of _ wt] exI [of _ resp] exI [of _ page]
        exI [of _ content]) simp
qed

lemma plain_wiki_titles: "\<forall>t \<in> set wiki_titles. CHR ''/'' \<notin> set t"
  by (simp add: wiki_titles_def)




lemma title_file_wiki: "t \<in> set wiki_titles \<Longrightarrow> title_file t = ''data/'' @ t @ ''.txt''"
  using plain_wiki_titles by (simp add: title_file_eq)

lemma demo_download_runs: "fst (download_loop demo_ext wiki_titles empty_world) = Inr ()"
  by (simp add: download_loop_def wiki_titles_def download_step_def seq_def call_def
      of_result_def result_def demo_ext_def empty_world_def wiki_reply_def first_page_def
      path_exists_def path_mkdir_def open_w_def fp_write_def emit_def parent_error_def
      dirname_def title_file_def path_div_def data_path_def)

section \<open>The download loop writes one file per title\<close>

text \<open>
  Claim C1. When the Wikipedia download loop completes without raising, then: the wiki API
  address is an HTTPS one; the run has issued one GET to it per title of
  \<open>wiki_titles\<close>, in the order of the list, each followed by the opening of that title's
  file, and the directory \<^verbatim>\<open>data\<close> was created before the first file was opened
  exactly when it did not exist; \<^verbatim>\<open>data\<close> is a directory afterwards; and for every
  title the file \<^verbatim>\<open>data/{title}.txt\<close> holds the extract of the first page of the
  reply that the API gave to the request for that title (made in the world the loop had
  reached after the titles before it).
\<close>

theorem download_loop_writes_every_title:
  assumes run: "download_loop ext wiki_titles w = (Inr u, w')"
  shows "take 8 wiki_url = ''https://'' \<and>
         trace w' = trace w @ [HttpGet wiki_url (wiki_params (hd wiki_titles))]
            @ (if path_exists data_path w then [] else [Mkdir data_path])
            @ [OpenW (title_file (hd wiki_titles))]
            @ concat (map (\<lambda>t. [HttpGet wiki_url (wiki_params t), OpenW (title_file t)])
                (tl wiki_titles)) \<and>
         files w' ''data'' = Some Dir \<and>
         (\<forall>t \<in> set wiki_titles.
            \<exists>ts1 ts2 wt resp page content.
              wiki_titles = ts1 @ t # ts2 \<and>
              download_loop ext ts1 w = (Inr (), wt) \<and>
              requests_get ext wt wiki_url (wiki_params t) = Inr resp \<and>
              first_page resp = Inr page \<and>
              getitem page ''extract'' = Inr (JStr content) \<and>
              title_file t = ''data/'' @ t @ ''.txt'' \<and>
              files w' (''data/'' @ t @ ''.txt'') = Some (File content))"
proof -
  have url: "take 8 wiki_url = ''https://''"
    by (simp add: wiki_url_def)
  have ne: "wiki_titles = hd wiki_titles # tl wiki_titles"
    by (simp add: wiki_titles_def)
  have run': "download_loop ext (hd wiki_titles # tl wiki_titles) w = (Inr u, w')"
    using run ne by simp
  have pl': "\<forall>t \<in> set (hd wiki_titles # tl wiki_titles). CHR ''/'' \<notin> set t"
    using plain_wiki_titles ne by simp
  note tr = download_loop_trace [OF run' pl']
  have cont: "\<exists>ts1 ts2 wt resp page content.
              wiki_titles = ts1 @ t # ts2 \<and>
              download_loop ext ts1 w = (Inr (), wt) \<and>
              requests_get ext wt wiki_url (wiki_params t) = Inr resp \<and>
              first_page resp = Inr page \<and>
              getitem page ''extract'' = Inr (JStr content) \<and>
              title_file t = ''data/'' @ t @ ''.txt'' \<and>
              files w' (''data/'' @ t @ ''.txt'') = Some (File content)"
    if t: "t \<in> set wiki_titles" for t
  proof -
    from download_loop_content [OF run plain_wiki_titles t] obtain ts1 ts2 wt resp page content
      where "wiki_titles = ts1 @ t # ts2" "download_loop ext ts1 w = (Inr (), wt)"
        "requests_get ext wt wiki_url (wiki_params t) = Inr resp"
        "first_page resp = Inr page" "getitem page ''extract'' = Inr (JStr content)"
        "files w' (title_file t) = Some (File content)"
      by blast
    then show ?thesis
      using title_file_wiki [OF t]
      by (intro exI [of _ ts1] exI [of _ ts2] exI [of _ wt] exI [of _ resp] exI [of _ page]
          exI [of _ content]) simp
  qed
  from tr have "files w' ''data'' = Some Dir"
    by (simp add: data_path_def)
  with url tr cont show ?thesis
    by blast
qed

theorem download_loop_writes_every_title_witness:
  "\<exists>w'. download_loop demo_ext wiki_titles empty_world = (Inr (), w') \<and>
        files w' ''data'' = Some Dir \<and>
        files w' ''data/Boston.txt'' = Some (File ''About Boston'')"
proof -
  obtain w' where run: "download_loop demo_ext wiki_titles empty_world = (Inr (), w')"
    using demo_download_runs by (cases "download_loop demo_ext wiki_titles empty_world") auto
  note th = download_loop_writes_every_title [OF run]
  have b: "''Boston'' \<in> set wiki_titles"
    by (simp add: wiki_titles_def)
  from th b obtain resp page content wt where
    "requests_get demo_ext wt wiki_url (wiki_params ''Boston'') = Inr resp"
    "first_page resp = Inr page" "getitem page ''extract'' = Inr (JStr content)"
    "files w' (''data/'' @ ''Boston'' @ ''.txt'') = Some (File content)"
    by blast
  then have "files w' ''data/Boston.txt'' = Some (File ''About Boston'')"
    by (auto simp: demo_ext_def wiki_reply_def requested_title_def wiki_params_def first_page_def)
  with run th show ?thesis by blast
qed


section \<open>Running the download loop again\<close>


lemma download_step_rerun:
  assumes "requests_get ext v wiki_url (wiki_params t) = Inr resp"
    and "first_page resp = Inr page"
    and "getitem page ''extract'' = Inr (JStr c)"
    and "files v data_path = Some Dir"
    and "files v (title_file t) = Some (File c)"
    and "CHR ''/'' \<notin> set t"
  shows "\<exists>v'. download_step ext t v = (Inr (), v') \<and> files v' = files v \<and> environ v' = environ v"
proof -
  have same: "(files v)(title_file t \<mapsto> File c) = files v"
    using assms(5) by (rule map_upd_triv)
  have pe: "parent_error (title_file t) (emit (HttpGet wiki_url (wiki_params t)) v) = None"
    using assms(4,6) by (simp add: parent_error_title_file emit_def)
  show ?thesis
    using assms same pe
    by (simp add: download_step_def seq_def call_def of_result_def result_def path_exists_def
        open_w_def fp_write_def emit_def)
qed

lemma download_loop_rerun:
  assumes "\<forall>t \<in> set us. \<forall>wa wb. requests_get ext wa wiki_url (wiki_params t)
             = requests_get ext wb wiki_url (wiki_params t)"
    and "\<forall>t \<in> set us. \<exists>wt resp page c.
           requests_get ext wt wiki_url (wiki_params t) = Inr resp \<and>
           first_page resp = Inr page \<and>
           getitem page ''extract'' = Inr (JStr c) \<and>
           files w1 (title_file t) = Some (File c)"
    and "files w1 data_path = Some Dir"
    and "\<forall>t \<in> set us. CHR ''/'' \<notin> set t"
    and "files v = files w1"
  shows "\<exists>v'. download_loop ext us v = (Inr (), v') \<and> files v' = files w1 \<and> environ v' = environ v"
  using assms
proof (induction us arbitrary: v)
  case Nil
  then show ?case by (simp add: download_loop_Nil)
next
  case (Cons t us)
  from Cons.prems(2) obtain wt resp page c where
    "requests_get ext wt wiki_url (wiki_params t) = Inr resp" and
    pg: "first_page resp = Inr page" "getitem page ''extract'' = Inr (JStr c)" and
    f: "files w1 (title_file t) = Some (File c)"
    by auto
  with Cons.prems(1) have rq: "requests_get ext v wiki_url (wiki_params t) = Inr resp"
    by (metis list.set_intros(1))
  from Cons.prems(4) have pt: "CHR ''/'' \<notin> set t"
    by simp
  from download_step_rerun [OF rq pg _ _ pt] f Cons.prems(3,5)
  obtain v1 where step: "download_step ext t v = (Inr (), v1)" and
    v1: "files v1 = files w1" "environ v1 = environ v"
    by auto
  from Cons.IH [of v1] Cons.prems v1
  obtain v' where "download_loop ext us v1 = (Inr (), v')" "files v' = files w1"
    "environ v' = environ v1"
    by auto
  with step v1 show ?case
    by (simp add: download_loop_Cons)
qed

lemma demo_stable:
  "\<forall>t \<in> set wiki_titles. \<forall>wa wb.
     requests_get demo_ext wa wiki_url (wiki_params t)
       = requests_get demo_ext wb wiki_url (wiki_params t)"
  by (simp add: demo_ext_def)

lemma download_step_overwrites:
  assumes "download_step ext t v = (Inr u, v')" and "CHR ''/'' \<notin> set t"
  shows "\<exists>resp page content.
           requests_get ext v wiki_url (wiki_params t) = Inr resp \<and>
           first_page resp = Inr page \<and>
           getitem page ''extract'' = Inr (JStr content) \<and>
           files v' (title_file t) = Some (File content)"
proof -
  from download_step_ok [OF assms] obtain resp page content where
    r: "requests_get ext v wiki_url (wiki_params t) = Inr resp" "first_page resp = Inr page"
    "getitem page ''extract'' = Inr (JStr content)"
    "files v' = (if path_exists data_path v then files v else (files v)(data_path \<mapsto> Dir))
                        (title_file t \<mapsto> File content)"
    by (elim exE conjE) (rule that, assumption+)
  show ?thesis
    apply (rule exI [of _ resp], rule exI [of _ page], rule exI [of _ content])
    apply (simp add: r)
    done
qed

lemma stale_download_runs: "fst (download_loop demo_ext wiki_titles stale_world) = Inr ()"
  by (simp add: download_loop_def wiki_titles_def download_step_def seq_def call_def
      of_result_def result_def demo_ext_def stale_world_def wiki_reply_def first_page_def
      path_exists_def path_mkdir_def open_w_def fp_write_def emit_def parent_error_def
      dirname_def title_file_def path_div_def data_path_def)

lemma stale_step_runs: "fst (download_step demo_ext ''Boston'' stale_world) = Inr ()"
  by (simp add: download_step_def seq_def call_def
      of_result_def result_def demo_ext_def stale_world_def wiki_reply_def first_page_def
      path_exists_def path_mkdir_def open_w_def fp_write_def emit_def parent_error_def
      dirname_def title_file_def path_div_def data_path_def)

text \<open>
  Claim C10. Let the API give the same reply to the request for a title whenever it is
  asked, and let a run of the download loop complete. Then a second run of the loop
  completes too; it requests every title again and opens every title's file again in
  write mode (the events it adds are, title by title, the GET and the opening of the
  file, and no directory is created); and it leaves the file system and the environment
  as the first run left them. Whatever a title's file held before a turn of the loop, the
  turn leaves in it the extract of the reply and nothing of the older text: opening in
  write mode empties the file, so the loop never appends.
\<close>

theorem download_loop_idempotent:
  assumes same: "\<forall>t \<in> set wiki_titles. \<forall>wa wb.
             requests_get ext wa wiki_url (wiki_params t)
               = requests_get ext wb wiki_url (wiki_params t)"
    and run: "download_loop ext wiki_titles w = (Inr u, w1)"
  shows "(\<exists>w2. download_loop ext wiki_titles w1 = (Inr (), w2) \<and>
               files w2 = files w1 \<and> environ w2 = environ w1 \<and>
               trace w2 = trace w1 @
                 concat (map (\<lambda>t. [HttpGet wiki_url (wiki_params t), OpenW (title_file t)])
                   wiki_titles)) \<and>
         (\<forall>t \<in> set wiki_titles. \<forall>v v' old.
            files v (title_file t) = Some (File old) \<and>
            download_step ext t v = (Inr (), v') \<longrightarrow>
            (\<exists>resp page content.
               requests_get ext v wiki_url (wiki_params t) = Inr resp \<and>
               first_page resp = Inr page \<and>
               getitem page ''extract'' = Inr (JStr content) \<and>
               files v' (title_file t) = Some (File content))) \<and>
         (\<forall>t \<in> set wiki_titles. \<forall>v fp v'.
            open_w (title_file t) v = (Inr fp, v') \<longrightarrow> files v' (title_file t) = Some (File []))"
proof -
  have trunc: "\<forall>t \<in> set wiki_titles. \<forall>v fp v'.
            open_w (title_file t) v = (Inr fp, v') \<longrightarrow> files v' (title_file t) = Some (File [])"
    by (auto simp: open_w_ok emit_def)
  have over: "\<forall>t \<in> set wiki_titles. \<forall>v v' old.
            files v (title_file t) = Some (File old) \<and>
            download_step ext t v = (Inr (), v') \<longrightarrow>
            (\<exists>resp page content.
               requests_get ext v wiki_url (wiki_params t) = Inr resp \<and>
               first_page resp = Inr page \<and>
               getitem page ''extract'' = Inr (JStr content) \<and>
               files v' (title_file t) = Some (File content))"
    using download_step_overwrites plain_wiki_titles by blast
  have ne: "wiki_titles = hd wiki_titles # tl wiki_titles"
    by (simp add: wiki_titles_def)
  have "download_loop ext (hd wiki_titles # tl wiki_titles) w = (Inr u, w1)"
    using run ne by simp
  moreover have "\<forall>t \<in> set (hd wiki_titles # tl wiki_titles). CHR ''/'' \<notin> set t"
    using plain_wiki_titles ne by simp
  ultimately have dir: "files w1 data_path = Some Dir"
    using download_loop_trace by blast
  have written: "\<forall>t \<in> set wiki_titles. \<exists>wt resp page c.
           requests_get ext wt wiki_url (wiki_params t) = Inr resp \<and>
           first_page resp = Inr page \<and>
           getitem page ''extract'' = Inr (JStr c) \<and>
           files w1 (title_file t) = Some (File c)"
  proof
    fix t assume "t \<in> set wiki_titles"
    from download_loop_content [OF run plain_wiki_titles this]
    show "\<exists>wt resp page c.
           requests_get ext wt wiki_url (wiki_params t) = Inr resp \<and>
           first_page resp = Inr page \<and>
           getitem page ''extract'' = Inr (JStr c) \<and>
           files w1 (title_file t) = Some (File c)"
      by blast
  qed
  from download_loop_rerun [OF same written dir plain_wiki_titles refl]
  obtain w2 where again: "download_loop ext wiki_titles w1 = (Inr (), w2)" and
    kept: "files w2 = files w1" "environ w2 = environ w1"
    by blast
  from download_loop_in_dir [OF again plain_wiki_titles dir]
  have "trace w2 = trace w1 @
      concat (map (\<lambda>t. [HttpGet wiki_url (wiki_params t), OpenW (title_file t)]) wiki_titles)"
    by simp
  with again kept have "\<exists>w2. download_loop ext wiki_titles w1 = (Inr (), w2) \<and>
               files w2 = files w1 \<and> environ w2 = environ w1 \<and>
               trace w2 = trace w1 @
                 concat (map (\<lambda>t. [HttpGet wiki_url (wiki_params t), OpenW (title_file t)])
                   wiki_titles)"
    by blast
  with over trunc show ?thesis
    by (intro conjI)
qed

theorem download_loop_idempotent_witness:
  "\<exists>w1 w2 v'. download_loop demo_ext wiki_titles stale_world = (Inr (), w1) \<and>
     download_loop demo_ext wiki_titles w1 = (Inr (), w2) \<and> files w2 = files w1 \<and>
     length (trace w2) = length (trace w1) + 10 \<and>
     files stale_world ''data/Boston.txt'' = Some (File ''An older text about Boston'') \<and>
     download_step demo_ext ''Boston'' stale_world = (Inr (), v') \<and>
     files v' ''data/Boston.txt'' = Some (File ''About Boston'')"
proof -
  obtain w1 where run: "download_loop demo_ext wiki_titles stale_world = (Inr (), w1)"
    using stale_download_runs by (cases "download_loop demo_ext wiki_titles stale_world") auto
  obtain v' where step: "download_step demo_ext ''Boston'' stale_world = (Inr (), v')"
    using stale_step_runs by (cases "download_step demo_ext ''Boston'' stale_world") auto
  note th = download_loop_idempotent [OF demo_stable run]
  from th obtain w2 where again: "download_loop demo_ext wiki_titles w1 = (Inr (), w2)"
    "files w2 = files w1"
    "trace w2 = trace w1 @
       concat (map (\<lambda>t. [HttpGet wiki_url (wiki_params t), OpenW (title_file t)]) wiki_titles)"
    by blast
  then have len: "length (trace w2) = length (trace w1) + 10"
    by (simp add: wiki_titles_def)
  have b: "''Boston'' \<in> set wiki_titles"
    by (simp add: wiki_titles_def)
  have old: "files stale_world (title_file ''Boston'') = Some (File ''An older text about Boston'')"
    by (simp add: stale_world_def title_file_wiki [OF b])
  from th b old step obtain resp page content where
    "requests_get demo_ext stale_world wiki_url (wiki_params ''Boston'') = Inr resp"
    "first_page resp = Inr page" "getitem page ''extract'' = Inr (JStr content)"
    "files v' (title_file ''Boston'') = Some (File content)"
    by blast
  then have new: "files v' ''data/Boston.txt'' = Some (File ''About Boston'')"
    by (auto simp: demo_ext_def wiki_reply_def requested_title_def wiki_params_def first_page_def
        title_file_wiki [OF b])
  from old have old': "files stale_world ''data/Boston.txt'' = Some (File ''An older text about Boston'')"
    by (simp add: title_file_wiki [OF b])
  from run again(1,2) len old' step new show ?thesis
    by blast
qed

section \<open>The document-loading loop\<close>


lemma for_loop_ok_Cons:
  "for_loop body (x # xs) s w = (Inr s', w') \<longleftrightarrow>
     (\<exists>s1 w1. body x s w = (Inr s1, w1) \<and> for_loop body xs s1 w1 = (Inr s', w'))"
  by (auto split: prod.splits sum.splits)

lemma for_loop_ok_append:
  "for_loop body (xs @ ys) s w = (Inr s', w') \<longleftrightarrow>
     (\<exists>s1 w1. for_loop body xs s w = (Inr s1, w1) \<and> for_loop body ys s1 w1 = (Inr s', w'))"
  by (auto simp: for_loop_append split: prod.splits sum.splits)

lemma load_step_ok:
  "load_step ext t cd w = (Inr cd', w') \<longleftrightarrow>
     (\<exists>docs. load_data ext w (InputFiles [''data/'' @ t @ ''.txt'']) = Inr docs \<and>
        cd' = cd(t \<mapsto> docs) \<and>
        w' = emit (LibCall ''SimpleDirectoryReader.load_data'' []) w)"
  by (auto simp: load_step_def seq_Inr_iff call_eq result_eq)

lemma load_loop_gen:
  assumes "for_loop (load_step ext) ts cd0 w = (Inr cd, w')"
  shows "dom cd = dom cd0 \<union> set ts \<and> (\<forall>k. k \<notin> set ts \<longrightarrow> cd k = cd0 k) \<and>
         files w' = files w \<and> environ w' = environ w \<and>
         trace w' = trace w @ map (\<lambda>t. LibCall ''SimpleDirectoryReader.load_data'' []) ts"
  using assms
proof (induction ts arbitrary: cd0 w)
  case Nil
  then show ?case by simp
next
  case (Cons t ts)
  from Cons.prems obtain cd1 w1 where
    step: "load_step ext t cd0 w = (Inr cd1, w1)" and
    rest: "for_loop (load_step ext) ts cd1 w1 = (Inr cd, w')"
    by (auto simp: for_loop_ok_Cons simp del: for_loop.simps)
  from step have "dom cd1 = insert t (dom cd0)" "\<forall>k. k \<noteq> t \<longrightarrow> cd1 k = cd0 k"
    "files w1 = files w" "environ w1 = environ w"
    "trace w1 = trace w @ [LibCall ''SimpleDirectoryReader.load_data'' []]"
    by (auto simp: load_step_ok emit_def)
  with Cons.IH [OF rest] show ?case by auto
qed

lemma load_loop_content:
  assumes run: "for_loop (load_step ext) ts cd0 w = (Inr cd, w')" and t: "t \<in> set ts"
  shows "\<exists>ts1 ts2 cd1 wt docs.
           ts = ts1 @ t # ts2 \<and> t \<notin> set ts2 \<and>
           for_loop (load_step ext) ts1 cd0 w = (Inr cd1, wt) \<and>
           load_data ext wt (InputFiles [''data/'' @ t @ ''.txt'']) = Inr docs \<and>
           cd t = Some docs"
proof -
  from t obtain ts1 ts2 where split: "ts = ts1 @ t # ts2" and last: "t \<notin> set ts2"
    by (meson split_list_last)
  from run obtain cd1 wt cd2 w2 where
    before: "for_loop (load_step ext) ts1 cd0 w = (Inr cd1, wt)" and
    step: "load_step ext t cd1 wt = (Inr cd2, w2)" and
    rest: "for_loop (load_step ext) ts2 cd2 w2 = (Inr cd, w')"
    unfolding split by (auto simp: for_loop_ok_append for_loop_ok_Cons simp del: for_loop.simps)
  from step obtain docs where
    d: "load_data ext wt (InputFiles [''data/'' @ t @ ''.txt'']) = Inr docs" and
    "cd2 t = Some docs"
    by (auto simp: load_step_ok)
  with load_loop_gen [OF rest] last have "cd t = Some docs"
    by simp
  with split last before d show ?thesis
    by (intro exI [of _ ts1] exI [of _ ts2] exI [of _ cd1] exI [of _ wt] exI [of _ docs]) simp
qed

lemma demo_load_runs:
  "load_loop demo_ext wiki_titles empty_world =
     (Inr [''Toronto'' \<mapsto> ''documents'', ''Seattle'' \<mapsto> ''documents'',
           ''Chicago'' \<mapsto> ''documents'', ''Boston'' \<mapsto> ''documents'',
           ''Houston'' \<mapsto> ''documents''],
      empty_world\<lparr>trace := replicate 5 (LibCall ''SimpleDirectoryReader.load_data'' [])\<rparr>)"
  by (simp add: load_loop_def wiki_titles_def load_step_def seq_def call_def result_def
      demo_ext_def empty_world_def emit_def numeral_eq_Suc)

text \<open>
  Claim C5. When the document-loading loop completes, the keys of \<open>city_docs\<close> are
  exactly the titles of \<open>wiki_titles\<close>, and the value at every title is what the
  reader returned for the one input file \<^verbatim>\<open>data/{title}.txt\<close> (read in the world
  the loop had reached after the titles before it). The loop makes one reader call per
  title and changes no file.
\<close>

theorem city_docs_one_file_per_title:
  assumes run: "load_loop ext wiki_titles w = (Inr cd, w')"
  shows "dom cd = set wiki_titles \<and>
         (\<forall>t \<in> set wiki_titles.
            \<exists>ts1 ts2 cd1 wt docs.
              wiki_titles = ts1 @ t # ts2 \<and>
              for_loop (load_step ext) ts1 Map.empty w = (Inr cd1, wt) \<and>
              load_data ext wt (InputFiles [''data/'' @ t @ ''.txt'']) = Inr docs \<and>
              cd t = Some docs) \<and>
         files w' = files w \<and>
         trace w' = trace w @ map (\<lambda>t. LibCall ''SimpleDirectoryReader.load_data'' []) wiki_titles"
proof -
  from run have run': "for_loop (load_step ext) wiki_titles Map.empty w = (Inr cd, w')"
    by (simp add: load_loop_def)
  have "\<exists>ts1 ts2 cd1 wt docs.
              wiki_titles = ts1 @ t # ts2 \<and>
              for_loop (load_step ext) ts1 Map.empty w = (Inr cd1, wt) \<and>
              load_data ext wt (InputFiles [''data/'' @ t @ ''.txt'']) = Inr docs \<and>
              cd t = Some docs" if "t \<in> set wiki_titles" for t
    using load_loop_content [OF run' that] by blast
  with load_loop_gen [OF run'] show ?thesis
    by simp
qed

theorem city_docs_one_file_per_title_witness:
  "\<exists>cd w'. load_loop demo_ext wiki_titles empty_world = (Inr cd, w') \<and>
     dom cd = set wiki_titles \<and> cd ''Chicago'' = Some ''documents''"
proof -
  note run = demo_load_runs
  note th = city_docs_one_file_per_title [OF run]
  have "''Chicago'' \<in> set wiki_titles"
    by (simp add: wiki_titles_def)
  with th show ?thesis
    using run by auto
qed


section \<open>The agent-building loop\<close>


lemma emits_Nil [simp]: "emits [] w = w"
  by (simp add: emits_def)

lemma emit_emits: "emit e (emits es w) = emits (es @ [e]) w"
  by (simp add: emit_def emits_def)

lemma emit_as_emits: "emit e w = emits [e] w"
  by (simp add: emit_def emits_def)

lemma emits_emits: "emits es (emits ds w) = emits (ds @ es) w"
  by (simp add: emits_def)

lemma emits_world [simp]:
  "files (emits es w) = files w" "environ (emits es w) = environ w"
  "trace (emits es w) = trace w @ es"
  by (simp_all add: emits_def)

lemma seq_call:
  "seq (call ev f) g w = (case f w of Inl e \<Rightarrow> (Inl e, emit ev w) | Inr x \<Rightarrow> g x (emit ev w))"
  by (simp add: seq_def call_def split: sum.splits)

lemma seq_of_result:
  "seq (of_result r) g w = (case r of Inl e \<Rightarrow> (Inl e, w) | Inr x \<Rightarrow> g x w)"
  by (simp add: seq_def of_result_def split: sum.splits)

lemma agent_step_ok:
  "agent_step ext sc cd t ag w = (Inr ag', w') \<longleftrightarrow>
     (\<exists>docs vix six vqe lqe fllm agent.
        cd t = Some docs \<and>
        VectorStoreIndex_from_documents ext w docs sc None = Inr vix \<and>
        SummaryIndex_from_documents ext (emits (take 1 agent_events) w) docs sc = Inr six \<and>
        as_query_engine ext (emits (take 2 agent_events) w) vix None None = Inr vqe \<and>
        as_query_engine ext (emits (take 3 agent_events) w) six None None = Inr lqe \<and>
        OpenAI ext (emits (take 4 agent_events) w) None ''gpt-3.5-turbo-0613'' = Inr fllm \<and>
        OpenAIAgent_from_tools ext (emits (take 5 agent_events) w)
          [QueryEngineTool vqe (ToolMetadata ''vector_tool'' (vector_tool_description t)),
           QueryEngineTool lqe (ToolMetadata ''summary_tool'' (summary_tool_description t))]
          fllm True = Inr agent \<and>
        ag' = ag(t \<mapsto> agent) \<and>
        w' = emits agent_events w)"
  unfolding agent_step_def
  by (simp add: seq_call seq_of_result result_def dict_get_def
      agent_events_def emit_emits emit_as_emits emits_emits split: sum.splits option.splits)
    (auto simp: emits_def)


lemma agent_step_run:
  assumes "agent_step ext sc cd t ag w = (Inr ag', w')"
  shows "\<exists>docs vix six vqe lqe fllm agent.
        cd t = Some docs \<and>
        VectorStoreIndex_from_documents ext w docs sc None = Inr vix \<and>
        SummaryIndex_from_documents ext (emits (take 1 agent_events) w) docs sc = Inr six \<and>
        as_query_engine ext (emits (take 2 agent_events) w) vix None None = Inr vqe \<and>
        as_query_engine ext (emits (take 3 agent_events) w) six None None = Inr lqe \<and>
        OpenAI ext (emits (take 4 agent_events) w) None ''gpt-3.5-turbo-0613'' = Inr fllm \<and>
        OpenAIAgent_from_tools ext (emits (take 5 agent_events) w)
          [QueryEngineTool vqe (ToolMetadata ''vector_tool'' (vector_tool_description t)),
           QueryEngineTool lqe (ToolMetadata ''summary_tool'' (summary_tool_description t))]
          fllm True = Inr agent \<and>
        ag' = ag(t \<mapsto> agent) \<and>
        w' = emits agent_events w"
  using assms by (simp only: agent_step_ok)

lemma agent_step_effect:
  assumes "agent_step ext sc cd t ag w = (Inr ag', w')"
  shows "\<exists>agent. ag' = ag(t \<mapsto> agent) \<and> w' = emits agent_events w"
  using agent_step_run [OF assms] by (elim exE conjE) (rule exI, erule conjI, assumption)

lemma map_upd_eq_iff: "m(k \<mapsto> a) = m(k \<mapsto> b) \<longleftrightarrow> a = b"
  by (metis map_upd_eqD1)

lemma agents_loop_gen:
  assumes "for_loop (agent_step ext sc cd) ts ag0 w = (Inr ag, w')"
  shows "dom ag = dom ag0 \<union> set ts \<and> (\<forall>k. k \<notin> set ts \<longrightarrow> ag k = ag0 k) \<and>
         files w' = files w \<and> environ w' = environ w \<and>
         trace w' = trace w @ concat (map (\<lambda>t. agent_events) ts)"
  using assms
proof (induction ts arbitrary: ag0 w)
  case Nil
  then show ?case by simp
next
  case (Cons t ts)
  from Cons.prems obtain ag1 w1 where
    step: "agent_step ext sc cd t ag0 w = (Inr ag1, w1)" and
    rest: "for_loop (agent_step ext sc cd) ts ag1 w1 = (Inr ag, w')"
    by (auto simp: for_loop_ok_Cons simp del: for_loop.simps)
  from agent_step_effect [OF step]
  have "dom ag1 = insert t (dom ag0)" "\<forall>k. k \<noteq> t \<longrightarrow> ag1 k = ag0 k"
    "files w1 = files w" "environ w1 = environ w"
    "trace w1 = trace w @ agent_events"
    by auto
  with Cons.IH [OF rest] show ?case by auto
qed

lemma agents_loop_content:
  assumes run: "for_loop (agent_step ext sc cd) ts ag0 w = (Inr ag, w')" and t: "t \<in> set ts"
  shows "\<exists>ts1 ts2 ag1 wt agent.
           ts = ts1 @ t # ts2 \<and> t \<notin> set ts2 \<and>
           for_loop (agent_step ext sc cd) ts1 ag0 w = (Inr ag1, wt) \<and>
           agent_step ext sc cd t ag1 wt = (Inr (ag1(t \<mapsto> agent)), emits agent_events wt) \<and>
           ag t = Some agent"
proof -
  from t obtain ts1 ts2 where split: "ts = ts1 @ t # ts2" and last: "t \<notin> set ts2"
    by (meson split_list_last)
  from run obtain ag1 wt ag2 w2 where
    before: "for_loop (agent_step ext sc cd) ts1 ag0 w = (Inr ag1, wt)" and
    step: "agent_step ext sc cd t ag1 wt = (Inr ag2, w2)" and
    rest: "for_loop (agent_step ext sc cd) ts2 ag2 w2 = (Inr ag, w')"
    unfolding split by (auto simp: for_loop_ok_append for_loop_ok_Cons simp del: for_loop.simps)
  from agent_step_effect [OF step]
  obtain agent where a: "ag2 = ag1(t \<mapsto> agent)" "w2 = emits agent_events wt"
    by blast
  with agents_loop_gen [OF rest] last have "ag t = Some agent"
    by simp
  with split last before step a show ?thesis
    by (intro exI [of _ ts1] exI [of _ ts2] exI [of _ ag1] exI [of _ wt] exI [of _ agent]) simp
qed

lemma demo_agents_run:
  "fst (agents_loop demo_ext ''service_context''
          (\<lambda>t. if t \<in> set wiki_titles then Some ''documents'' else None)
          wiki_titles empty_world) =
     Inr [''Toronto'' \<mapsto> ''agent'', ''Seattle'' \<mapsto> ''agent'', ''Chicago'' \<mapsto> ''agent'',
          ''Boston'' \<mapsto> ''agent'', ''Houston'' \<mapsto> ''agent'']"
  by (simp add: agents_loop_def wiki_titles_def agent_step_def seq_call seq_of_result
      result_def dict_get_def demo_ext_def)

text \<open>
  Claim C8. When the agent-building loop completes, the keys of \<open>agents\<close> are exactly
  the titles of \<open>wiki_titles\<close>, and the agent stored at a title is what
  \<^verbatim>\<open>OpenAIAgent.from_tools\<close> returned for a list of exactly two tools: the first is
  named \<^verbatim>\<open>vector_tool\<close> and holds the query engine of the vector store index built
  from that title's documents, the second is named \<^verbatim>\<open>summary_tool\<close> and holds the
  query engine of the summary index built from the same documents. Each library call is
  made in the world the loop has reached by then.
\<close>

theorem agents_built_from_two_tools:
  assumes run: "agents_loop ext sc cd wiki_titles w = (Inr ag, w')"
  shows "dom ag = set wiki_titles \<and>
         (\<forall>t \<in> set wiki_titles.
            \<exists>ts1 ts2 ag1 wt docs vix six vqe lqe fllm agent.
              wiki_titles = ts1 @ t # ts2 \<and>
              agents_loop ext sc cd ts1 w = (Inr ag1, wt) \<and>
              cd t = Some docs \<and>
              VectorStoreIndex_from_documents ext wt docs sc None = Inr vix \<and>
              SummaryIndex_from_documents ext (emits (take 1 agent_events) wt) docs sc = Inr six \<and>
              as_query_engine ext (emits (take 2 agent_events) wt) vix None None = Inr vqe \<and>
              as_query_engine ext (emits (take 3 agent_events) wt) six None None = Inr lqe \<and>
              OpenAI ext (emits (take 4 agent_events) wt) None ''gpt-3.5-turbo-0613'' = Inr fllm \<and>
              OpenAIAgent_from_tools ext (emits (take 5 agent_events) wt)
                [QueryEngineTool vqe (ToolMetadata ''vector_tool'' (vector_tool_description t)),
                 QueryEngineTool lqe (ToolMetadata ''summary_tool'' (summary_tool_description t))]
                fllm True = Inr agent \<and>
              ag t = Some agent)"
    (is "_ \<and> (\<forall>t \<in> _. ?built t)")
proof -
  from run have run': "for_loop (agent_step ext sc cd) wiki_titles Map.empty w = (Inr ag, w')"
    by (simp add: agents_loop_def)
  have "?built t" if t: "t \<in> set wiki_titles" for t
  proof -
    from agents_loop_content [OF run' t] obtain ts1 ts2 ag1 wt agent where
      s: "wiki_titles = ts1 @ t # ts2" and
      b: "for_loop (agent_step ext sc cd) ts1 Map.empty w = (Inr ag1, wt)" and
      st: "agent_step ext sc cd t ag1 wt = (Inr (ag1(t \<mapsto> agent)), emits agent_events wt)" and
      a: "ag t = Some agent"
      by (elim exE conjE) (rule that, assumption+)
    from b have b': "agents_loop ext sc cd ts1 w = (Inr ag1, wt)"
      by (simp add: agents_loop_def)
    from agent_step_run [OF st] obtain docs vix six vqe lqe fllm agent' where
      c: "cd t = Some docs"
        "VectorStoreIndex_from_documents ext wt docs sc None = Inr vix"
        "SummaryIndex_from_documents ext (emits (take 1 agent_events) wt) docs sc = Inr six"
        "as_query_engine ext (emits (take 2 agent_events) wt) vix None None = Inr vqe"
        "as_query_engine ext (emits (take 3 agent_events) wt) six None None = Inr lqe"
        "OpenAI ext (emits (take 4 agent_events) wt) None ''gpt-3.5-turbo-0613'' = Inr fllm" and
      d: "OpenAIAgent_from_tools ext (emits (take 5 agent_events) wt)
          [QueryEngineTool vqe (ToolMetadata ''vector_tool'' (vector_tool_description t)),
           QueryEngineTool lqe (ToolMetadata ''summary_tool'' (summary_tool_description t))]
          fllm True = Inr agent'" and
      e: "ag1(t \<mapsto> agent) = ag1(t \<mapsto> agent')"
      by (elim exE conjE) (rule that, assumption+)
    from e have "agent' = agent"
      by (simp add: map_upd_eq_iff)
    with d have d': "OpenAIAgent_from_tools ext (emits (take 5 agent_events) wt)
          [QueryEngineTool vqe (ToolMetadata ''vector_tool'' (vector_tool_description t)),
           QueryEngineTool lqe (ToolMetadata ''summary_tool'' (summary_tool_description t))]
          fllm True = Inr agent"
      by simp
    show ?thesis
      apply (rule exI [of _ ts1], rule exI [of _ ts2], rule exI [of _ ag1], rule exI [of _ wt])
      apply (rule exI [of _ docs], rule exI [of _ vix], rule exI [of _ six], rule exI [of _ vqe])
      apply (rule exI [of _ lqe], rule exI [of _ fllm], rule exI [of _ agent])
      apply (intro conjI s b' c d' a)
      done
  qed
  then have all: "\<forall>t \<in> set wiki_titles. ?built t"
    by (rule ballI)
  from agents_loop_gen [OF run'] have "dom ag = set wiki_titles"
    by simp
  then show ?thesis
    using all by (rule conjI)
qed

theorem agents_built_from_two_tools_witness:
  "\<exists>ag w'. agents_loop demo_ext ''service_context''
          (\<lambda>t. if t \<in> set wiki_titles then Some ''documents'' else None)
          wiki_titles empty_world = (Inr ag, w') \<and>
     dom ag = set wiki_titles \<and> ag ''Houston'' = Some ''agent''"
proof -
  obtain ag w' where run: "agents_loop demo_ext ''service_context''
          (\<lambda>t. if t \<in> set wiki_titles then Some ''documents'' else None)
          wiki_titles empty_world = (ag, w')"
    by (cases "agents_loop demo_ext ''service_context''
          (\<lambda>t. if t \<in> set wiki_titles then Some ''documents'' else None)
          wiki_titles empty_world")
  with demo_agents_run have ag: "ag = Inr [''Toronto'' \<mapsto> ''agent'', ''Seattle'' \<mapsto> ''agent'',
          ''Chicago'' \<mapsto> ''agent'', ''Boston'' \<mapsto> ''agent'', ''Houston'' \<mapsto> ''agent'']"
    by simp
  from agents_built_from_two_tools [OF run [unfolded ag]] run [unfolded ag]
  show ?thesis
    by (intro exI conjI) (assumption, simp, simp)
qed


section \<open>The order of the events of a run\<close>


lemma staged_result: "staged r a a (result x)"
  by (simp add: staged_def result_def)

lemma staged_of_result: "staged r a a (of_result x)"
  by (simp add: staged_def of_result_def)

lemma staged_call: "a \<le> r ev \<Longrightarrow> staged r a (r ev) (call ev f)"
  by (simp add: staged_def call_def emit_def)

lemma staged_os_environ_set:
  "a \<le> r (EnvSet k v) \<Longrightarrow> staged r a (r (EnvSet k v)) (os_environ_set k v)"
  by (simp add: staged_def os_environ_set_def emit_def)

lemma staged_shell_escape:
  "(\<And>n. r (System c n) = j) \<Longrightarrow> a \<le> j \<Longrightarrow> staged r a j (shell_escape ext c)"
  by (simp add: staged_def shell_escape_def emit_def split: prod.splits)

lemma staged_py_print:
  "a \<le> r (Print (str_of ext v)) \<Longrightarrow> staged r a (r (Print (str_of ext v))) (py_print ext v)"
  by (simp add: staged_def py_print_def emit_def)

lemma staged_path_mkdir: "a \<le> r (Mkdir p) \<Longrightarrow> staged r a (r (Mkdir p)) (path_mkdir p)"
  by (simp add: staged_def path_mkdir_def emit_def split: option.splits)

lemma staged_open_w: "a \<le> r (OpenW p) \<Longrightarrow> staged r a (r (OpenW p)) (open_w p)"
  by (simp add: staged_def open_w_def emit_def split: option.splits)

lemma staged_fp_write: "staged r a a (fp_write fp v)"
  by (simp add: staged_def fp_write_def split: json.splits option.splits node.splits)

lemma staged_weaken: "staged r a b m \<Longrightarrow> a' \<le> a \<Longrightarrow> b \<le> b' \<Longrightarrow> staged r a' b' m"
  unfolding staged_def by (meson order_trans)

lemma staged_seq:
  assumes m: "staged r a b m" and f: "\<And>x. staged r b c (f x)"
  shows "staged r a c (seq m f)"
  unfolding staged_def
proof (intro conjI allI)
  from m f show "a \<le> c"
    unfolding staged_def by (meson order_trans)
next
  fix w
  from m have ab: "a \<le> b"
    by (simp add: staged_def)
  from f have bc: "b \<le> c"
    by (simp add: staged_def)
  from m obtain es1 where
    e1: "trace (snd (m w)) = trace w @ es1" "sorted (map r es1)"
      "\<forall>e \<in> set es1. a \<le> r e \<and> r e \<le> b"
    unfolding staged_def by blast
  show "\<exists>es. trace (snd (seq m f w)) = trace w @ es \<and> sorted (map r es) \<and>
             (\<forall>e \<in> set es. a \<le> r e \<and> r e \<le> c)"
  proof (cases "m w")
    case (Pair res w1)
    show ?thesis
    proof (cases res)
      case (Inl e)
      with Pair have "seq m f w = (Inl e, w1)"
        by (simp add: seq_def)
      with e1 Pair bc show ?thesis
        by (intro exI [of _ es1]) (auto intro: order_trans)
    next
      case (Inr x)
      with Pair have s: "seq m f w = f x w1"
        by (simp add: seq_def)
      from f [of x] obtain es2 where
        e2: "trace (snd (f x w1)) = trace w1 @ es2" "sorted (map r es2)"
          "\<forall>e \<in> set es2. b \<le> r e \<and> r e \<le> c"
        unfolding staged_def by blast
      have "sorted (map r (es1 @ es2))"
        using e1 e2 by (auto simp: sorted_append intro: order_trans)
      moreover have "\<forall>e \<in> set (es1 @ es2). a \<le> r e \<and> r e \<le> c"
        using e1 e2 ab bc by (auto intro: order_trans)
      moreover have "trace (snd (seq m f w)) = trace w @ es1 @ es2"
        using s e1 e2 Pair by simp
      ultimately show ?thesis
        by (intro exI [of _ "es1 @ es2"]) simp
    qed
  qed
qed

lemma staged_if:
  "staged r a b m1 \<Longrightarrow> staged r a b m2 \<Longrightarrow> staged r a b (\<lambda>w. if c w then m1 w else m2 w)"
  by (simp add: staged_def)

lemma staged_case_prod:
  "(\<And>x y. staged r a b (f x y)) \<Longrightarrow> staged r a b (case p of (x, y) \<Rightarrow> f x y)"
  by (cases p) simp

lemma staged_for_loop:
  assumes "\<And>x s. staged r j j (body x s)"
  shows "staged r j j (for_loop body xs s)"
proof (induction xs arbitrary: s)
  case Nil
  have "for_loop body [] s = result s"
    by (rule ext) (simp add: result_def)
  then show ?case by (simp add: staged_result)
next
  case (Cons x xs)
  have "for_loop body (x # xs) s = seq (body x s) (\<lambda>s'. for_loop body xs s')"
    by (rule ext) (simp add: seq_def)
  with staged_seq [OF assms [of x s] Cons.IH] show ?case
    by simp
qed

lemma staged_new_events:
  assumes "staged r a b m"
  shows "sorted (map r (new_events m w)) \<and> (\<forall>e \<in> set (new_events m w). a \<le> r e \<and> r e \<le> b)"
proof -
  from assms obtain es where
    "trace (snd (m w)) = trace w @ es" "sorted (map r es)" "\<forall>e \<in> set es. a \<le> r e \<and> r e \<le> b"
    unfolding staged_def by blast
  then show ?thesis
    by (simp add: new_events_def)
qed

lemma staged_download_step:
  assumes "\<And>u p. r (HttpGet u p) = j" "\<And>p. r (Mkdir p) = j" "\<And>p. r (OpenW p) = j"
  shows "staged r j j (download_step ext t)"
proof -
  have h: "staged r j j (call (HttpGet wiki_url (wiki_params t))
            (\<lambda>w. requests_get ext w wiki_url (wiki_params t)))"
    using staged_call [of j r "HttpGet wiki_url (wiki_params t)"] assms by simp
  have mk: "staged r j j (path_mkdir data_path)"
    using staged_path_mkdir [of j r data_path] assms by simp
  have op: "staged r j j (open_w (title_file t))"
    using staged_open_w [of j r "title_file t"] assms by simp
  show ?thesis
    unfolding download_step_def
    by (intro staged_seq [where b = j] h staged_of_result staged_if mk staged_result op
        staged_fp_write)
qed

lemma staged_download_loop:
  assumes "\<And>u p. r (HttpGet u p) = j" "\<And>p. r (Mkdir p) = j" "\<And>p. r (OpenW p) = j"
  shows "staged r j j (download_loop ext ts)"
  unfolding download_loop_def
  by (intro staged_for_loop staged_download_step assms)

lemma staged_load_loop:
  assumes "r (LibCall ''SimpleDirectoryReader.load_data'' []) = j"
  shows "staged r j j (for_loop (load_step ext) ts cd)"
proof -
  have "staged r j j (load_step ext t c)" for t c
    unfolding load_step_def
    using staged_call [of j r "LibCall ''SimpleDirectoryReader.load_data'' []"] assms
    by (intro staged_seq [where b = j] staged_result) simp
  then show ?thesis
    by (intro staged_for_loop)
qed




lemma staged_hi: "staged r a b m \<Longrightarrow> b \<le> b' \<Longrightarrow> staged r a b' m"
  using staged_weaken [of r a b m a b'] by simp

lemma staged_from: "staged r j j m \<Longrightarrow> a \<le> j \<Longrightarrow> staged r a j m"
  using staged_weaken [of r j j m a j] by simp

lemma staged_result_in: "a \<le> c \<Longrightarrow> staged r a c (result x)"
  using staged_hi [OF staged_result] .

lemma staged_call_at: "r ev = j \<Longrightarrow> staged r j j (call ev f)"
  using staged_call [of j r ev f] by simp

lemma seq_call_staged:
  "a \<le> r ev \<Longrightarrow> (\<And>x. staged r (r ev) c (f x)) \<Longrightarrow> staged r a c (seq (call ev g) f)"
  by (rule staged_seq [OF staged_call])

lemma seq_env_staged:
  "a \<le> r (EnvSet k v) \<Longrightarrow> (\<And>x. staged r (r (EnvSet k v)) c (f x)) \<Longrightarrow>
     staged r a c (seq (os_environ_set k v) f)"
  by (rule staged_seq [OF staged_os_environ_set])

lemma seq_shell_staged:
  "(\<And>n. r (System cmd n) = r (System cmd 0)) \<Longrightarrow> a \<le> r (System cmd 0) \<Longrightarrow>
     (\<And>x. staged r (r (System cmd 0)) c (f x)) \<Longrightarrow>
     staged r a c (seq (shell_escape ext cmd) f)"
  by (rule staged_seq [OF staged_shell_escape])

lemma seq_of_result_staged:
  "(\<And>x. staged r a c (f x)) \<Longrightarrow> staged r a c (seq (of_result v) f)"
  by (rule staged_seq [OF staged_of_result])

lemma seq_print_staged:
  "a \<le> r (Print (str_of ext v)) \<Longrightarrow> (\<And>x. staged r (r (Print (str_of ext v))) c (f x)) \<Longrightarrow>
     staged r a c (seq (py_print ext v) f)"
  by (rule staged_seq [OF staged_py_print])

lemma seq_display_loop_staged:
  "a \<le> r ev \<Longrightarrow> (\<And>x. staged r (r ev) c (f x)) \<Longrightarrow>
     staged r a c (seq (for_loop (\<lambda>n _. call ev (g n)) nodes s) f)"
  by (rule staged_seq [OF staged_from [OF staged_for_loop [OF staged_call_at [of r, OF refl]]]])

lemma seq_download_loop_staged:
  assumes "\<And>u p. r (HttpGet u p) = r (Mkdir data_path)" "\<And>p. r (Mkdir p) = r (Mkdir data_path)"
    "\<And>p. r (OpenW p) = r (Mkdir data_path)" "a \<le> r (Mkdir data_path)"
    "\<And>x. staged r (r (Mkdir data_path)) c (f x)"
  shows "staged r a c (seq (download_loop ext ts) f)"
  by (rule staged_seq [OF staged_from [OF staged_download_loop
      [where j = "r (Mkdir data_path)", OF assms(1,2,3)] assms(4)] assms(5)])

lemma seq_load_loop_staged:
  assumes "a \<le> r (LibCall ''SimpleDirectoryReader.load_data'' [])"
    "\<And>x. staged r (r (LibCall ''SimpleDirectoryReader.load_data'' [])) c (f x)"
  shows "staged r a c (seq (load_loop ext ts) f)"
  unfolding load_loop_def
  by (rule staged_seq [OF staged_from [OF staged_load_loop [of r, OF refl] assms(1)] assms(2)])

lemma staged_agent_step:
  assumes "\<forall>e \<in> set agent_events. r e = j"
  shows "staged r j j (agent_step ext sc cd t ag)"
  unfolding agent_step_def
  using assms
  by (intro staged_seq [where b = j] staged_call_at staged_of_result staged_result)
    (simp_all add: agent_events_def)

lemma seq_agents_loop_staged:
  assumes "\<forall>e \<in> set agent_events. r e = r (LibCall ''OpenAIAgent.from_tools'' [(''verbose'', B True)])"
    and "a \<le> r (LibCall ''OpenAIAgent.from_tools'' [(''verbose'', B True)])"
    and "\<And>x. staged r (r (LibCall ''OpenAIAgent.from_tools'' [(''verbose'', B True)])) c (f x)"
  shows "staged r a c (seq (agents_loop ext sc cd ts) f)"
  unfolding agents_loop_def
  by (rule staged_seq [OF staged_from [OF staged_for_loop [OF staged_agent_step
      [where j = "r (LibCall ''OpenAIAgent.from_tools'' [(''verbose'', B True)])", OF assms(1)]]
      assms(2)] assms(3)])

lemma staged_objects_loop: "staged r a a (objects_loop ag ts)"
proof -
  have "staged r a a (object_step ag t obs)" for t obs
    unfolding object_step_def
    by (intro staged_seq [where b = a] staged_of_result staged_result)
  then show ?thesis
    unfolding objects_loop_def by (intro staged_for_loop)
qed

lemma seq_objects_loop_staged:
  "(\<And>x. staged r a c (f x)) \<Longrightarrow> staged r a c (seq (objects_loop ag ts) f)"
  by (rule staged_seq [OF staged_objects_loop])

lemma seq_query_and_print_staged:
  assumes "\<And>s. r (Print s) = r (LibCall ''query'' [])" "a \<le> r (LibCall ''query'' [])"
    "\<And>x. staged r (r (LibCall ''query'' [])) c (f x)"
  shows "staged r a c (seq (query_and_print ext qe q) f)"
proof -
  have "staged r a (r (LibCall ''query'' [])) (query_and_print ext qe q)"
    unfolding query_and_print_def
    by (intro seq_call_staged seq_print_staged staged_result_in) (simp_all add: assms(1,2))
  then show ?thesis
    by (rule staged_seq) (rule assms)
qed

lemmas seq_staged_rules =
  seq_call_staged seq_env_staged seq_shell_staged seq_of_result_staged seq_print_staged
  seq_display_loop_staged seq_download_loop_staged seq_load_loop_staged
  seq_agents_loop_staged seq_objects_loop_staged seq_query_and_print_staged
  staged_result_in staged_case_prod

lemma staged_nomic_build: "staged (\<lambda>e. spec_order (step_of e)) 1 4 (nomic_build ext)"
  unfolding nomic_build_def
  by (intro seq_staged_rules) simp_all

lemma staged_nomic_query: "staged (\<lambda>e. spec_order (step_of e)) 4 5 (nomic_query ext ret)"
  unfolding nomic_query_def
  by (intro seq_staged_rules) simp_all

lemma staged_nomic_notebook: "staged (\<lambda>e. spec_order (step_of e)) 1 5 (nomic_notebook ext)"
  unfolding nomic_notebook_def
  by (intro staged_seq [OF staged_nomic_build] staged_seq [OF staged_nomic_query]
      staged_case_prod staged_result)

lemma staged_wiki_documents:
  "staged (\<lambda>e. agents_order (step_of e)) 0 1 (wiki_documents ext)"
proof -
  have "staged (\<lambda>e. agents_order (step_of e)) 1 1 (load_loop ext wiki_titles)"
    unfolding load_loop_def by (rule staged_load_loop) simp
  then show ?thesis
    unfolding wiki_documents_def
    by (intro seq_shell_staged seq_download_loop_staged) simp_all
qed

lemma staged_document_agents:
  "staged (\<lambda>e. agents_order (step_of e)) 2 4 (document_agents ext cd)"
  unfolding document_agents_def
  by (intro seq_staged_rules) (simp_all add: agent_events_def)

lemma staged_agents_notebook: "staged (\<lambda>e. agents_order (step_of e)) 0 4 (agents_notebook ext)"
  unfolding agents_notebook_def
  by (rule staged_seq [OF staged_wiki_documents staged_weaken [OF staged_document_agents]])
    simp_all

section \<open>The events of the illustration runs\<close>


lemmas run_defs =
  seq_def call_def of_result_def result_def emit_def os_environ_set_def shell_escape_def
  py_print_def dict_get_def download_loop_def download_step_def first_page_def
  path_exists_def path_mkdir_def open_w_def fp_write_def parent_error_def dirname_def
  title_file_def path_div_def data_path_def load_loop_def load_step_def agents_loop_def
  agent_step_def objects_loop_def object_step_def query_and_print_def
  wiki_documents_def document_agents_def agents_notebook_def
  nomic_build_def nomic_query_def nomic_notebook_def
  wiki_titles_def wiki_reply_def empty_world_def

lemma demo_agents_trace:
  "trace (snd (agents_notebook demo_ext empty_world)) =
     [System (PipInstall ''llama-index'') 0,
      HttpGet wiki_url (wiki_params ''Toronto''), Mkdir ''data'', OpenW ''data/Toronto.txt'',
      HttpGet wiki_url (wiki_params ''Seattle''), OpenW ''data/Seattle.txt'',
      HttpGet wiki_url (wiki_params ''Chicago''), OpenW ''data/Chicago.txt'',
      HttpGet wiki_url (wiki_params ''Boston''), OpenW ''data/Boston.txt'',
      HttpGet wiki_url (wiki_params ''Houston''), OpenW ''data/Houston.txt'']
     @ replicate 5 (LibCall ''SimpleDirectoryReader.load_data'' [])
     @ [EnvSet ''OPENAI_API_KEY'' ''sk-...'',
        LibCall ''OpenAI'' [(''temperature'', I 0), (''model'', S ''gpt-3.5-turbo'')],
        LibCall ''ServiceContext.from_defaults'' []]
     @ concat (replicate 5 agent_events)
     @ [LibCall ''VectorStoreIndex'' [],
        LibCall ''as_query_engine'' [(''similarity_top_k'', I 1), (''verbose'', B True)],
        LibCall ''query'' [], Print ''response'', LibCall ''query'' [], Print ''response'',
        LibCall ''query'' [], Print ''response'']"
  by (simp add: run_defs demo_ext_def agent_events_def numeral_eq_Suc)



section \<open>The events of a sequence\<close>

lemma staged_appends:
  assumes "staged r a b m"
  shows "trace (snd (m w)) = trace w @ new_events m w"
proof -
  from assms obtain es where "trace (snd (m w)) = trace w @ es"
    unfolding staged_def by blast
  then show ?thesis
    by (simp add: new_events_def)
qed





section \<open>The top-level nodes and the top-level query engine\<close>


lemma object_step_ok:
  "object_step ag t obs w = (Inr obs', w') \<longleftrightarrow>
     (\<exists>agent. ag t = Some agent \<and> obs' = obs @ [IndexNode (wiki_summary t) t agent] \<and> w' = w)"
  by (auto simp: object_step_def seq_of_result result_def dict_get_def split: option.splits)

lemma objects_loop_gen:
  assumes "for_loop (object_step ag) ts obs0 w = (Inr obs, w')"
  shows "w' = w \<and> (\<exists>new. obs = obs0 @ new \<and>
           map (\<lambda>n. (node_text n, index_id n, Some (obj n))) new =
           map (\<lambda>t. (wiki_summary t, t, ag t)) ts)"
  using assms
proof (induction ts arbitrary: obs0 w)
  case Nil
  then show ?case by simp
next
  case (Cons t ts)
  from Cons.prems obtain obs1 w1 where
    step: "object_step ag t obs0 w = (Inr obs1, w1)" and
    rest: "for_loop (object_step ag) ts obs1 w1 = (Inr obs, w')"
    by (auto simp: for_loop_ok_Cons simp del: for_loop.simps)
  from step obtain agent where a: "ag t = Some agent"
    "obs1 = obs0 @ [IndexNode (wiki_summary t) t agent]" "w1 = w"
    by (auto simp: object_step_ok)
  from Cons.IH [OF rest] obtain new where
    "w' = w1" "obs = obs1 @ new"
    "map (\<lambda>n. (node_text n, index_id n, Some (obj n))) new =
           map (\<lambda>t. (wiki_summary t, t, ag t)) ts"
    by blast
  with a show ?case
    by (intro conjI exI [of _ "IndexNode (wiki_summary t) t agent # new"]) simp_all
qed

lemma objects_loop_ok:
  assumes "objects_loop ag ts w = (Inr obs, w')"
  shows "w' = w \<and> map (\<lambda>n. (node_text n, index_id n, Some (obj n))) obs =
           map (\<lambda>t. (wiki_summary t, t, ag t)) ts"
  using objects_loop_gen [of ag ts "[]" w obs w'] assms
  by (auto simp: objects_loop_def)

lemma py_print_eq:
  "py_print ext v w = (r, w') \<longleftrightarrow> r = Inr () \<and> w' = emit (Print (str_of ext v)) w"
  by (auto simp: py_print_def)

lemma query_and_print_ok:
  "query_and_print ext qe q w = (Inr r, w') \<longleftrightarrow>
     query ext w qe q = Inr r \<and>
     w' = emit (Print (str_of ext r)) (emit (LibCall ''query'' []) w)"
  by (auto simp: query_and_print_def seq_Inr_iff call_eq py_print_eq result_eq)

lemma agents_notebook_run:
  assumes "agents_notebook ext w = (Inr vars, w')"
  shows "\<exists>cd wd. wiki_documents ext w = (Inr cd, wd) \<and> document_agents ext cd wd = (Inr vars, w')"
  using assms by (simp add: agents_notebook_def seq_Inr_iff)
















section \<open>What the outputs depend on\<close>
lemma nomic_query_ok:
  "nomic_query ext r w = (Inr nodes, w') \<Longrightarrow>
     retrieve ext w r ''What software did Paul write?'' = Inr nodes"
  by (auto simp: nomic_query_def seq_Inr_iff call_eq result_eq)

lemma nomic_notebook_run:
  assumes "nomic_notebook ext w = (Inr v, w')"
  shows "\<exists>docs em sc ix wb.
           nomic_build ext w = (Inr (docs, em, sc, ix, retriever_nomic v), wb) \<and>
           nomic_query ext (retriever_nomic v) wb = (Inr (retrieved_nodes_nomic v), w')"
  using assms
  by (auto simp: nomic_notebook_def seq_Inr_iff result_eq split: prod.splits)

lemma demo_nomic_completes:
  "\<exists>v. fst (nomic_notebook demo_ext empty_world) = Inr v \<and>
       retrieved_nodes_nomic v = [''node 1'', ''node 2'']"
  by (simp add: run_defs demo_ext_def)

lemma other_nomic_completes:
  "\<exists>v. fst (nomic_notebook other_ext empty_world) = Inr v \<and>
       retrieved_nodes_nomic v = [''node 3'']"
  by (simp add: run_defs demo_ext_def other_ext_def)

lemma demo_agents_responses:
  "\<exists>u. fst (agents_notebook demo_ext empty_world) = Inr u \<and>
       responses u = [''response'', ''response'', ''response'']"
  by (simp add: run_defs demo_ext_def)

lemma other_agents_responses:
  "\<exists>u. fst (agents_notebook other_ext empty_world) = Inr u \<and>
       responses u = [''another response'', ''another response'', ''another response'']"
  by (simp add: run_defs demo_ext_def other_ext_def)

section \<open>The events of a completed run\<close>

lemma shell_escape_eq:
  "shell_escape ext cmd w = (r, w') \<longleftrightarrow>
     r = Inr () \<and>
     w' = emit (System cmd (fst (system ext w cmd))) (w\<lparr>files := snd (system ext w cmd)\<rparr>)"
  by (auto simp: shell_escape_def split: prod.splits)

lemma os_environ_set_eq:
  "os_environ_set k v w = (r, w') \<longleftrightarrow>
     r = Inr () \<and> w' = emit (EnvSet k v) (w\<lparr>environ := (environ w)(k \<mapsto> v)\<rparr>)"
  by (auto simp: os_environ_set_def)

lemma wiki_documents_trace:
  assumes "wiki_documents ext w = (Inr cd, wd)"
  shows "\<exists>n mk.
      trace wd = trace w @
        [System (PipInstall ''llama-index'') n, HttpGet wiki_url (wiki_params (hd wiki_titles))]
        @ mk @ [OpenW (title_file (hd wiki_titles))]
        @ concat (map (\<lambda>t. [HttpGet wiki_url (wiki_params t), OpenW (title_file t)])
            (tl wiki_titles))
        @ map (\<lambda>t. LibCall ''SimpleDirectoryReader.load_data'' []) wiki_titles \<and>
      (mk = [] \<or> mk = [Mkdir data_path])"
proof -
  let ?n = "fst (system ext w (PipInstall ''llama-index''))"
  let ?w1 = "emit (System (PipInstall ''llama-index'') ?n)
               (w\<lparr>files := snd (system ext w (PipInstall ''llama-index''))\<rparr>)"
  let ?mk = "if path_exists data_path ?w1 then [] else [Mkdir data_path]"
  from assms obtain w2 where
    dl: "download_loop ext wiki_titles ?w1 = (Inr (), w2)" and
    ld: "load_loop ext wiki_titles w2 = (Inr cd, wd)"
    unfolding wiki_documents_def
    by (auto simp: seq_Inr_iff shell_escape_eq)
  have ne: "wiki_titles = hd wiki_titles # tl wiki_titles"
    by (simp add: wiki_titles_def)
  have "download_loop ext (hd wiki_titles # tl wiki_titles) ?w1 = (Inr (), w2)"
    using dl ne by simp
  moreover have "\<forall>t \<in> set (hd wiki_titles # tl wiki_titles). CHR ''/'' \<notin> set t"
    using plain_wiki_titles ne by simp
  ultimately have t2: "trace w2 = trace ?w1 @ [HttpGet wiki_url (wiki_params (hd wiki_titles))]
            @ ?mk @ [OpenW (title_file (hd wiki_titles))]
            @ concat (map (\<lambda>t. [HttpGet wiki_url (wiki_params t), OpenW (title_file t)])
                (tl wiki_titles))"
    using download_loop_trace by blast
  from ld have "for_loop (load_step ext) wiki_titles Map.empty w2 = (Inr cd, wd)"
    by (simp add: load_loop_def)
  from load_loop_gen [OF this]
  have t3: "trace wd = trace w2 @ map (\<lambda>t. LibCall ''SimpleDirectoryReader.load_data'' []) wiki_titles"
    by simp
  have "trace wd = trace w @
        [System (PipInstall ''llama-index'') ?n, HttpGet wiki_url (wiki_params (hd wiki_titles))]
        @ ?mk @ [OpenW (title_file (hd wiki_titles))]
        @ concat (map (\<lambda>t. [HttpGet wiki_url (wiki_params t), OpenW (title_file t)])
            (tl wiki_titles))
        @ map (\<lambda>t. LibCall ''SimpleDirectoryReader.load_data'' []) wiki_titles"
    unfolding t3 t2 by (simp add: emit_def)
  moreover have "?mk = [] \<or> ?mk = [Mkdir data_path]"
    by simp
  ultimately show ?thesis
    by blast
qed

lemma document_agents_trace:
  assumes "document_agents ext cd wd = (Inr vars, w')"
  shows "trace w' = trace wd @
      [EnvSet ''OPENAI_API_KEY'' ''sk-...'',
       LibCall ''OpenAI'' [(''temperature'', I 0), (''model'', S ''gpt-3.5-turbo'')],
       LibCall ''ServiceContext.from_defaults'' []]
      @ concat (map (\<lambda>t. agent_events) wiki_titles)
      @ [LibCall ''VectorStoreIndex'' [],
         LibCall ''as_query_engine'' [(''similarity_top_k'', I 1), (''verbose'', B True)],
         LibCall ''query'' [], Print (str_of ext (responses vars ! 0)),
         LibCall ''query'' [], Print (str_of ext (responses vars ! 1)),
         LibCall ''query'' [], Print (str_of ext (responses vars ! 2))]"
proof -
  let ?wa = "emit (LibCall ''ServiceContext.from_defaults'' [])
      (emit (LibCall ''OpenAI'' [(''temperature'', I 0), (''model'', S ''gpt-3.5-turbo'')])
        (emit (EnvSet ''OPENAI_API_KEY'' ''sk-...'')
          (wd\<lparr>environ := (environ wd)(''OPENAI_API_KEY'' \<mapsto> ''sk-...'')\<rparr>)))"
  from assms obtain l sc ag wb obs wi vi qe r1 w2 r2 w3 r3 where
    ag: "agents_loop ext sc cd wiki_titles ?wa = (Inr ag, wb)" and
    obs: "objects_loop ag wiki_titles wb = (Inr obs, wi)" and
    q1: "query_and_print ext qe ''Tell me about the sports teams in Boston''
           (emit (LibCall ''as_query_engine'' [(''similarity_top_k'', I 1), (''verbose'', B True)])
              (emit (LibCall ''VectorStoreIndex'' []) wi)) = (Inr r1, w2)" and
    q2: "query_and_print ext qe ''Tell me about the sports teams in Houston'' w2 = (Inr r2, w3)" and
    q3: "query_and_print ext qe ''Give me a summary on all the positive aspects of Chicago'' w3
       = (Inr r3, w')" and
    vars: "vars = \<lparr>city_docs = cd, llm = l, agents = ag, objects = obs, vector_index = vi,
             query_engine = qe, responses = [r1, r2, r3]\<rparr>"
    unfolding document_agents_def
    by (auto simp: seq_Inr_iff call_eq result_eq os_environ_set_eq)
  from ag have "for_loop (agent_step ext sc cd) wiki_titles Map.empty ?wa = (Inr ag, wb)"
    by (simp add: agents_loop_def)
  from agents_loop_gen [OF this]
  have tb: "trace wb = trace ?wa @ concat (map (\<lambda>t. agent_events) wiki_titles)"
    by simp
  from objects_loop_ok [OF obs] have wi: "wi = wb"
    by simp
  from q1 have w2: "w2 = emit (Print (str_of ext r1)) (emit (LibCall ''query'' [])
           (emit (LibCall ''as_query_engine'' [(''similarity_top_k'', I 1), (''verbose'', B True)])
              (emit (LibCall ''VectorStoreIndex'' []) wi)))"
    by (simp add: query_and_print_ok)
  from q2 have w3: "w3 = emit (Print (str_of ext r2)) (emit (LibCall ''query'' []) w2)"
    by (simp add: query_and_print_ok)
  from q3 have w': "w' = emit (Print (str_of ext r3)) (emit (LibCall ''query'' []) w3)"
    by (simp add: query_and_print_ok)
  show ?thesis
    unfolding w' w3 w2 wi
    by (simp add: emit_def tb vars)
qed

lemma display_loop_trace:
  assumes "for_loop (\<lambda>n _. call ev (f n)) nodes s w = (Inr s', w')"
  shows "trace w' = trace w @ map (\<lambda>n. ev) nodes"
  using assms
proof (induction nodes arbitrary: s w)
  case Nil
  then show ?case by simp
next
  case (Cons n nodes)
  from Cons.prems obtain s1 where
    "for_loop (\<lambda>n _. call ev (f n)) nodes s1 (emit ev w) = (Inr s', w')"
    by (auto simp: for_loop_ok_Cons call_eq simp del: for_loop.simps)
  from Cons.IH [OF this] show ?case
    by (simp add: emit_def)
qed

lemma nomic_build_trace:
  assumes "nomic_build ext w = (Inr b, wb)"
  shows "\<exists>n1 n2. trace wb = trace w @
      [EnvSet ''OPENAI_API_KEY'' ''<OPENAI_API_KEY>'',
       System (MkdirP ''data/paul_graham/'') n1,
       System (Wget essay_url ''data/paul_graham/paul_graham_essay.txt'') n2,
       LibCall ''SimpleDirectoryReader.load_data'' [],
       nomic_embedding_call,
       LibCall ''ServiceContext.from_defaults'' [(''chunk_size'', I 1024)],
       LibCall ''VectorStoreIndex.from_documents'' [(''show_progress'', B True)],
       LibCall ''as_retriever'' [(''similarity_top_k'', I 2)]]"
  using assms unfolding nomic_build_def
  by (auto simp: seq_Inr_iff call_eq result_eq os_environ_set_eq shell_escape_eq emit_def
      nomic_embedding_call_def)

lemma nomic_query_trace:
  assumes "nomic_query ext r w = (Inr nodes, w')"
  shows "trace w' = trace w @ LibCall ''retrieve'' []
           # map (\<lambda>n. LibCall ''display_source_node'' [(''source_length'', I 2000)]) nodes"
proof -
  from assms obtain u where
    "for_loop (\<lambda>n _. call (LibCall ''display_source_node'' [(''source_length'', I 2000)])
                             (\<lambda>w. display_source_node ext w n 2000)) nodes ()
       (emit (LibCall ''retrieve'' []) w) = (Inr u, w')"
    unfolding nomic_query_def
    by (auto simp: seq_Inr_iff call_eq result_eq)
  from display_loop_trace [OF this] show ?thesis
    by (simp add: emit_def)
qed

section \<open>The order of the steps\<close>

text \<open>
  Claim C4, as amended. In every run of the Nomic notebook, complete or cut short by an
  exception, no event of a later step of the specification's order (credentials, documents,
  embedding model and index, retriever, retrieval and display) precedes an event of an
  earlier one. A run that completes consists of exactly these events, in this order: the
  write of \<^verbatim>\<open>OPENAI_API_KEY\<close>, the two shell commands that fetch the essay, the
  directory reader, the construction of the Nomic embedding model, of the service context
  and of the vector index, \<^verbatim>\<open>as_retriever\<close>, \<^verbatim>\<open>retrieve\<close>, and one
  \<^verbatim>\<open>display_source_node\<close> per retrieved node.

  In every run of the recursive retriever notebook no event of a later step of that
  notebook's own order (set-up, documents, credential, construction of models, indices,
  query engines and agents, queries) precedes an event of an earlier one. A run that
  completes consists of exactly these events, in this order: the package installation; for
  each title in turn the request and the opening of its file, the directory being created
  before the first file when it was missing; one directory-reader call per title; the write
  of \<^verbatim>\<open>OPENAI_API_KEY\<close>; the language model and the service context; for each title in
  turn its vector index, its summary index, the two query engines, the function-calling
  model and the agent; the top-level index; the top-level query engine; and then, three
  times, a query followed by the print of its response.
\<close>

theorem notebooks_follow_their_order:
  "sorted (map (\<lambda>e. spec_order (step_of e)) (new_events (nomic_notebook ext) w)) \<and>
   sorted (map (\<lambda>e. agents_order (step_of e)) (new_events (agents_notebook ext) w)) \<and>
   (nomic_notebook ext w = (Inr v, w1) \<longrightarrow>
      (\<exists>n1 n2. trace w1 = trace w @
         [EnvSet ''OPENAI_API_KEY'' ''<OPENAI_API_KEY>'',
          System (MkdirP ''data/paul_graham/'') n1,
          System (Wget essay_url ''data/paul_graham/paul_graham_essay.txt'') n2,
          LibCall ''SimpleDirectoryReader.load_data'' [],
          nomic_embedding_call,
          LibCall ''ServiceContext.from_defaults'' [(''chunk_size'', I 1024)],
          LibCall ''VectorStoreIndex.from_documents'' [(''show_progress'', B True)],
          LibCall ''as_retriever'' [(''similarity_top_k'', I 2)],
          LibCall ''retrieve'' []]
         @ map (\<lambda>n. LibCall ''display_source_node'' [(''source_length'', I 2000)])
             (retrieved_nodes_nomic v))) \<and>
   (agents_notebook ext w = (Inr vars, w2) \<longrightarrow>
      (\<exists>n mk. (mk = [] \<or> mk = [Mkdir data_path]) \<and>
         trace w2 = trace w @
           [System (PipInstall ''llama-index'') n,
            HttpGet wiki_url (wiki_params (hd wiki_titles))]
           @ mk @ [OpenW (title_file (hd wiki_titles))]
           @ concat (map (\<lambda>t. [HttpGet wiki_url (wiki_params t), OpenW (title_file t)])
               (tl wiki_titles))
           @ map (\<lambda>t. LibCall ''SimpleDirectoryReader.load_data'' []) wiki_titles
           @ [EnvSet ''OPENAI_API_KEY'' ''sk-...'',
              LibCall ''OpenAI'' [(''temperature'', I 0), (''model'', S ''gpt-3.5-turbo'')],
              LibCall ''ServiceContext.from_defaults'' []]
           @ concat (map (\<lambda>t. agent_events) wiki_titles)
           @ [LibCall ''VectorStoreIndex'' [],
              LibCall ''as_query_engine'' [(''similarity_top_k'', I 1), (''verbose'', B True)],
              LibCall ''query'' [], Print (str_of ext (responses vars ! 0)),
              LibCall ''query'' [], Print (str_of ext (responses vars ! 1)),
              LibCall ''query'' [], Print (str_of ext (responses vars ! 2))]))"
proof -
  have a: "sorted (map (\<lambda>e. spec_order (step_of e)) (new_events (nomic_notebook ext) w))"
    using staged_new_events [OF staged_nomic_notebook, of ext w] by simp
  have b: "sorted (map (\<lambda>e. agents_order (step_of e)) (new_events (agents_notebook ext) w))"
    using staged_new_events [OF staged_agents_notebook, of ext w] by simp
  have c: "\<exists>n1 n2. trace w1 = trace w @
         [EnvSet ''OPENAI_API_KEY'' ''<OPENAI_API_KEY>'',
          System (MkdirP ''data/paul_graham/'') n1,
          System (Wget essay_url ''data/paul_graham/paul_graham_essay.txt'') n2,
          LibCall ''SimpleDirectoryReader.load_data'' [],
          nomic_embedding_call,
          LibCall ''ServiceContext.from_defaults'' [(''chunk_size'', I 1024)],
          LibCall ''VectorStoreIndex.from_documents'' [(''show_progress'', B True)],
          LibCall ''as_retriever'' [(''similarity_top_k'', I 2)],
          LibCall ''retrieve'' []]
         @ map (\<lambda>n. LibCall ''display_source_node'' [(''source_length'', I 2000)])
             (retrieved_nodes_nomic v)"
    if run: "nomic_notebook ext w = (Inr v, w1)"
  proof -
    from nomic_notebook_run [OF run] obtain docs em sc ix wb where
      bld: "nomic_build ext w = (Inr (docs, em, sc, ix, retriever_nomic v), wb)" and
      qry: "nomic_query ext (retriever_nomic v) wb = (Inr (retrieved_nodes_nomic v), w1)"
      by blast
    from nomic_build_trace [OF bld] obtain n1 n2 where
      tb: "trace wb = trace w @
      [EnvSet ''OPENAI_API_KEY'' ''<OPENAI_API_KEY>'',
       System (MkdirP ''data/paul_graham/'') n1,
       System (Wget essay_url ''data/paul_graham/paul_graham_essay.txt'') n2,
       LibCall ''SimpleDirectoryReader.load_data'' [],
       nomic_embedding_call,
       LibCall ''ServiceContext.from_defaults'' [(''chunk_size'', I 1024)],
       LibCall ''VectorStoreIndex.from_documents'' [(''show_progress'', B True)],
       LibCall ''as_retriever'' [(''similarity_top_k'', I 2)]]"
      by blast
    show ?thesis
      apply (rule exI [of _ n1], rule exI [of _ n2])
      apply (simp add: nomic_query_trace [OF qry] tb)
      done
  qed
  have d: "\<exists>n mk. (mk = [] \<or> mk = [Mkdir data_path]) \<and>
         trace w2 = trace w @
           [System (PipInstall ''llama-index'') n,
            HttpGet wiki_url (wiki_params (hd wiki_titles))]
           @ mk @ [OpenW (title_file (hd wiki_titles))]
           @ concat (map (\<lambda>t. [HttpGet wiki_url (wiki_params t), OpenW (title_file t)])
               (tl wiki_titles))
           @ map (\<lambda>t. LibCall ''SimpleDirectoryReader.load_data'' []) wiki_titles
           @ [EnvSet ''OPENAI_API_KEY'' ''sk-...'',
              LibCall ''OpenAI'' [(''temperature'', I 0), (''model'', S ''gpt-3.5-turbo'')],
              LibCall ''ServiceContext.from_defaults'' []]
           @ concat (map (\<lambda>t. agent_events) wiki_titles)
           @ [LibCall ''VectorStoreIndex'' [],
              LibCall ''as_query_engine'' [(''similarity_top_k'', I 1), (''verbose'', B True)],
              LibCall ''query'' [], Print (str_of ext (responses vars ! 0)),
              LibCall ''query'' [], Print (str_of ext (responses vars ! 1)),
              LibCall ''query'' [], Print (str_of ext (responses vars ! 2))]"
    if run: "agents_notebook ext w = (Inr vars, w2)"
  proof -
    from agents_notebook_run [OF run] obtain cd wd where
      docs: "wiki_documents ext w = (Inr cd, wd)" and
      main: "document_agents ext cd wd = (Inr vars, w2)"
      by blast
    from wiki_documents_trace [OF docs] obtain n mk where
      td: "trace wd = trace w @
        [System (PipInstall ''llama-index'') n, HttpGet wiki_url (wiki_params (hd wiki_titles))]
        @ mk @ [OpenW (title_file (hd wiki_titles))]
        @ concat (map (\<lambda>t. [HttpGet wiki_url (wiki_params t), OpenW (title_file t)])
            (tl wiki_titles))
        @ map (\<lambda>t. LibCall ''SimpleDirectoryReader.load_data'' []) wiki_titles" and
      mk: "mk = [] \<or> mk = [Mkdir data_path]"
      by blast
    show ?thesis
      apply (rule exI [of _ n], rule exI [of _ mk])
      apply (rule conjI [OF mk])
      apply (simp add: document_agents_trace [OF main] td)
      done
  qed
  from a b c d show ?thesis
    by (intro conjI impI)
qed

theorem notebooks_follow_their_order_witness:
  "\<exists>v w1 vars w2.
     nomic_notebook demo_ext empty_world = (Inr v, w1) \<and>
     length (trace w1) = 11 \<and>
     trace w1 ! 8 = LibCall ''retrieve'' [] \<and>
     agents_notebook demo_ext empty_world = (Inr vars, w2) \<and>
     last (trace w2) = Print ''response''"
proof -
  from demo_nomic_completes obtain v w1 where
    run1: "nomic_notebook demo_ext empty_world = (Inr v, w1)" and
    nodes: "retrieved_nodes_nomic v = [''node 1'', ''node 2'']"
    by (cases "nomic_notebook demo_ext empty_world") auto
  from demo_agents_responses obtain vars w2 where
    run2: "agents_notebook demo_ext empty_world = (Inr vars, w2)" and
    resp: "responses vars = [''response'', ''response'', ''response'']"
    by (cases "agents_notebook demo_ext empty_world") auto
  note th = notebooks_follow_their_order [of demo_ext empty_world v w1 vars w2]
  have e: "trace empty_world = []"
    by (simp add: empty_world_def)
  from th run1 obtain n1 n2 where
    "trace w1 = trace empty_world @
         [EnvSet ''OPENAI_API_KEY'' ''<OPENAI_API_KEY>'',
          System (MkdirP ''data/paul_graham/'') n1,
          System (Wget essay_url ''data/paul_graham/paul_graham_essay.txt'') n2,
          LibCall ''SimpleDirectoryReader.load_data'' [],
          nomic_embedding_call,
          LibCall ''ServiceContext.from_defaults'' [(''chunk_size'', I 1024)],
          LibCall ''VectorStoreIndex.from_documents'' [(''show_progress'', B True)],
          LibCall ''as_retriever'' [(''similarity_top_k'', I 2)],
          LibCall ''retrieve'' []]
         @ map (\<lambda>n. LibCall ''display_source_node'' [(''source_length'', I 2000)])
             (retrieved_nodes_nomic v)"
    by blast
  then have t1: "length (trace w1) = 11" "trace w1 ! 8 = LibCall ''retrieve'' []"
    by (simp_all add: e nodes)
  from th run2 obtain n mk where
    "trace w2 = trace empty_world @
           [System (PipInstall ''llama-index'') n,
            HttpGet wiki_url (wiki_params (hd wiki_titles))]
           @ mk @ [OpenW (title_file (hd wiki_titles))]
           @ concat (map (\<lambda>t. [HttpGet wiki_url (wiki_params t), OpenW (title_file t)])
               (tl wiki_titles))
           @ map (\<lambda>t. LibCall ''SimpleDirectoryReader.load_data'' []) wiki_titles
           @ [EnvSet ''OPENAI_API_KEY'' ''sk-...'',
              LibCall ''OpenAI'' [(''temperature'', I 0), (''model'', S ''gpt-3.5-turbo'')],
              LibCall ''ServiceContext.from_defaults'' []]
           @ concat (map (\<lambda>t. agent_events) wiki_titles)
           @ [LibCall ''VectorStoreIndex'' [],
              LibCall ''as_query_engine'' [(''similarity_top_k'', I 1), (''verbose'', B True)],
              LibCall ''query'' [], Print (str_of demo_ext (responses vars ! 0)),
              LibCall ''query'' [], Print (str_of demo_ext (responses vars ! 1)),
              LibCall ''query'' [], Print (str_of demo_ext (responses vars ! 2))]"
    by blast
  then have "last (trace w2) = Print (str_of demo_ext (responses vars ! 2))"
    by simp
  then have t2: "last (trace w2) = Print ''response''"
    by (simp add: resp demo_ext_def)
  from run1 t1 run2 t2 show ?thesis
    by blast
qed

text \<open>
  The claim as stated, with credentials before the documents and indices before every
  engine, fails on the recursive retriever notebook: in the run of the illustration the
  articles are requested before the credential is written to the environment.
\<close>

theorem spec_order_counterexample:
  "\<not> sorted (map (\<lambda>e. spec_order (step_of e))
        (new_events (agents_notebook demo_ext) empty_world))"
proof -
  have "trace empty_world = []"
    by (simp add: empty_world_def)
  then show ?thesis
    by (simp add: new_events_def demo_agents_trace)
qed

section \<open>The environment of a run\<close>







































section \<open>Where the credentials go\<close>




end
